theory Spec2Isabelle
  imports Complex_Main "HOL-Library.Word"
begin

unbundle bit_operations_syntax

section \<open>Manchester encoder on the ATtiny817: the program of main.c\<close>

subsection \<open>Configuration and data\<close>

text \<open>
  The encoding convention is chosen in main.c by the preprocessor
  (\<^verbatim>\<open>#define ENCODING_G_E_THOMAS\<close>, otherwise \<^verbatim>\<open>ENCODING_IEEE\<close>). Both variants of
  the code are modelled; the convention is a parameter of every function whose text
  depends on it.
\<close>

datatype encoding = ENCODING_G_E_THOMAS | ENCODING_IEEE

type_synonym uint8_t = "8 word"

definition BAUD_RATE :: "32 word" where
  "BAUD_RATE = 50000"

definition START_BYTE :: uint8_t where
  "START_BYTE = 0x55"

definition TRANSMIT_BUFFER_SIZE :: nat where
  "TRANSMIT_BUFFER_SIZE = 255"

definition TRANSMIT_EXAMPLE_SIZE :: uint8_t where
  "TRANSMIT_EXAMPLE_SIZE = 18"

text \<open>The 18 bytes of \<^verbatim>\<open>"Hello Manchester!"\<close>: 17 characters and the terminating zero.\<close>

definition transmit_example :: "uint8_t list" where
  "transmit_example =
     [0x48, 0x65, 0x6C, 0x6C, 0x6F, 0x20, 0x4D, 0x61, 0x6E, 0x63, 0x68, 0x65, 0x73, 0x74,
      0x65, 0x72, 0x21, 0x00]"

text \<open>
  The variables of the program: the three volatile globals, the four static locals of the
  interrupt handler, and the two bits of the timer TCB0 that the program reads or writes
  (\<^verbatim>\<open>TCB_ENABLE_bm\<close> of \<^verbatim>\<open>TCB0.CTRLA\<close>, \<^verbatim>\<open>TCB_CAPT_bm\<close> of \<^verbatim>\<open>TCB0.INTFLAGS\<close>).
\<close>

record mcu =
  transmit_buffer :: "uint8_t list"
  transmit_buffer_length :: uint8_t
  sending_in_progress :: uint8_t
  prev :: uint8_t
  clk :: uint8_t
  transmit_buffer_index :: uint8_t
  bit_index :: uint8_t
  TCB_ENABLE :: bool
  TCB_CAPT :: bool

text \<open>
  The output pin PA4 is only ever written, through the strobe registers of PORTA. A
  write of \<^verbatim>\<open>PIN4_bm\<close> to \<^verbatim>\<open>OUTSET\<close> drives the pin high, to \<^verbatim>\<open>OUTCLR\<close> low, and to
  \<^verbatim>\<open>OUTTGL\<close> inverts it. The level of the pin is \<open>True\<close> for high.
\<close>

datatype port_write = OUTSET | OUTCLR | OUTTGL

fun pin_after :: "port_write \<Rightarrow> bool \<Rightarrow> bool" where
  "pin_after OUTSET p = True"
| "pin_after OUTCLR p = False"
| "pin_after OUTTGL p = (\<not> p)"

definition drive :: "port_write list \<Rightarrow> bool \<Rightarrow> bool" where
  "drive ws p = fold pin_after ws p"

subsection \<open>The state at reset\<close>

text \<open>
  The initialisers of main.c: the buffer holds \<^verbatim>\<open>START_BYTE\<close> followed by zeros, the
  handler's statics are \<^verbatim>\<open>clk = 1\<close>, \<^verbatim>\<open>transmit_buffer_index = 0\<close>, \<^verbatim>\<open>bit_index = 6\<close>
  and \<^verbatim>\<open>prev\<close> is 0 for G. E. Thomas and 1 for IEEE. The timer is off until
  \<^verbatim>\<open>TCB0_init\<close> runs.
\<close>

definition prev_seed :: "encoding \<Rightarrow> uint8_t" where
  "prev_seed conv = (case conv of ENCODING_G_E_THOMAS \<Rightarrow> 0 | ENCODING_IEEE \<Rightarrow> 1)"

definition reset_state :: "encoding \<Rightarrow> mcu" where
  "reset_state conv =
     \<lparr> transmit_buffer = START_BYTE # replicate (TRANSMIT_BUFFER_SIZE - 1) 0,
       transmit_buffer_length = 0,
       sending_in_progress = 0,
       prev = prev_seed conv,
       clk = 1,
       transmit_buffer_index = 0,
       bit_index = 6,
       TCB_ENABLE = False,
       TCB_CAPT = False \<rparr>"

text \<open>
  \<^verbatim>\<open>TCB0_init\<close> sets the enable bit. Its other statement, the computation of
  \<^verbatim>\<open>TCB0.CCMP\<close>, is single-precision floating-point arithmetic on \<^verbatim>\<open>F_CPU\<close>, a macro
  that main.c does not define; the period register is not part of this model.
\<close>

definition TCB0_init :: "mcu \<Rightarrow> mcu" where
  "TCB0_init s = s\<lparr>TCB_ENABLE := True\<rparr>"

text \<open>
  The start of \<^verbatim>\<open>main\<close>, up to the main loop. \<open>p0\<close> is the level of PA4 that
  \<^verbatim>\<open>atmel_start_init\<close> leaves (that function is not in main.c). Only the IEEE build
  writes the pin here.
\<close>

definition main_init :: "encoding \<Rightarrow> bool \<Rightarrow> mcu \<times> bool" where
  "main_init conv p0 =
     (TCB0_init (reset_state conv),
      (case conv of ENCODING_IEEE \<Rightarrow> pin_after OUTSET p0 | ENCODING_G_E_THOMAS \<Rightarrow> p0))"

subsection \<open>send_encoded_data\<close>

text \<open>
  The copy loop \<^verbatim>\<open>for (uint8_t i = 0; i < num_bytes; i++) transmit_buffer[i] =
  transmit_data[i];\<close>. A read beyond the caller's array or a write beyond the buffer is
  undefined behaviour in C and is \<open>None\<close> here.
\<close>

function copy_loop ::
  "uint8_t \<Rightarrow> uint8_t \<Rightarrow> uint8_t list \<Rightarrow> uint8_t list \<Rightarrow> uint8_t list option" where
  "copy_loop i num_bytes transmit_data buf =
     (if i < num_bytes then
        (if unat i < length transmit_data \<and> unat i < length buf then
           copy_loop (i + 1) num_bytes transmit_data (buf[unat i := transmit_data ! unat i])
         else None)
      else Some buf)"
  by pat_completeness auto
termination
proof (relation "measure (\<lambda>(i, num_bytes, transmit_data, buf). unat num_bytes - unat i)")
  show "wf (measure (\<lambda>(i, num_bytes, transmit_data, buf). unat num_bytes - unat i))"
    by simp
next
  fix i num_bytes :: uint8_t and transmit_data buf :: "uint8_t list"
  assume lt: "i < num_bytes"
  then have "unat i < unat num_bytes"
    by (simp add: word_less_nat_alt)
  moreover have "unat num_bytes < 256"
    using unsigned_less [of num_bytes] by simp
  ultimately have "unat (i + 1) = unat i + 1"
    by (simp add: unat_word_ariths)
  with \<open>unat i < unat num_bytes\<close> show
    "((i + 1, num_bytes, transmit_data, buf[unat i := transmit_data ! unat i]),
      (i, num_bytes, transmit_data, buf))
     \<in> measure (\<lambda>(i, num_bytes, transmit_data, buf). unat num_bytes - unat i)"
    by simp
qed

declare copy_loop.simps [simp del]

text \<open>
  The function returns the new state and its result byte. \<^verbatim>\<open>num_bytes + 1\<close> is
  computed in \<^verbatim>\<open>int\<close> and stored in a \<^verbatim>\<open>uint8_t\<close>: it wraps to 0 at 255. The
  function writes no register of the timer or of the port.
\<close>

definition send_encoded_data ::
  "mcu \<Rightarrow> uint8_t list \<Rightarrow> uint8_t \<Rightarrow> (mcu \<times> uint8_t) option" where
  "send_encoded_data s transmit_data num_bytes =
     (if sending_in_progress s = 0 then
        (case copy_loop 0 num_bytes transmit_data (transmit_buffer s) of
           None \<Rightarrow> None
         | Some buf \<Rightarrow>
             Some (s\<lparr>transmit_buffer := buf,
                     transmit_buffer_length := num_bytes + 1,
                     sending_in_progress := 1\<rparr>, 1))
      else Some (s, 0))"

subsection \<open>The interrupt handler of TCB0\<close>

text \<open>
  \<^verbatim>\<open>next_bit = (transmit_buffer[transmit_buffer_index] & (1 << bit_index)) > 0\<close>. The
  operands are promoted to \<^verbatim>\<open>int\<close>; the model computes in \<open>int\<close>.
\<close>

definition next_bit_of :: "mcu \<Rightarrow> uint8_t" where
  "next_bit_of s =
     (if (uint (transmit_buffer s ! unat (transmit_buffer_index s))
            AND push_bit (unat (bit_index s)) (1 :: int)) > 0
      then 1 else 0)"

text \<open>The write that parks the pin when a packet ends: low for G. E. Thomas, high for IEEE.\<close>

definition rest_write :: "encoding \<Rightarrow> port_write" where
  "rest_write conv = (case conv of ENCODING_G_E_THOMAS \<Rightarrow> OUTCLR | ENCODING_IEEE \<Rightarrow> OUTSET)"

text \<open>
  One run of \<^verbatim>\<open>ISR(TCB0_INT_vect)\<close>: the writes to PORTA in program order, and the state
  it leaves. The handler reads the buffer at \<^verbatim>\<open>transmit_buffer_index\<close> and shifts by
  \<^verbatim>\<open>bit_index\<close>; an index outside the array, or a shift that overflows the 16-bit
  \<^verbatim>\<open>int\<close> of the target, is undefined behaviour and is \<open>None\<close> here.
  \<^verbatim>\<open>if (!bit_index--)\<close> tests the old value; \<^verbatim>\<open>++transmit_buffer_index\<close> wraps in 8 bits
  before the comparison with the length.
\<close>

definition TCB0_INT_vect :: "encoding \<Rightarrow> mcu \<Rightarrow> (port_write list \<times> mcu) option" where
  "TCB0_INT_vect conv s =
     (if clk s \<noteq> 0 then
        Some ([OUTTGL], s\<lparr>clk := 0, TCB_CAPT := False\<rparr>)
      else if \<not> (unat (transmit_buffer_index s) < length (transmit_buffer s)
                 \<and> unat (bit_index s) < 15) then None
      else
        let next_bit = next_bit_of s;
            tgl = (if next_bit = prev s then [OUTTGL] else []);
            (fin, s1) =
              (if bit_index s = 0 then
                 (let s0 = s\<lparr>bit_index := 7,
                             transmit_buffer_index := transmit_buffer_index s + 1\<rparr>
                  in if transmit_buffer_index s0 \<ge> transmit_buffer_length s0 then
                       ([rest_write conv],
                        s0\<lparr>transmit_buffer_index := 0,
                           bit_index := 6,
                           TCB_ENABLE := False,
                           sending_in_progress := 0\<rparr>)
                     else ([], s0))
               else ([], s\<lparr>bit_index := bit_index s - 1\<rparr>))
        in Some (tgl @ fin, s1\<lparr>clk := 1, prev := next_bit, TCB_CAPT := False\<rparr>))"

subsection \<open>The timer and the waveform\<close>

text \<open>
  While \<^verbatim>\<open>TCB_ENABLE\<close> is set the timer raises its capture flag once per half bit period
  and the handler runs. \<open>ticks conv n s p\<close> runs up to \<open>n\<close> such interrupts from the state
  \<open>s\<close> with the pin at level \<open>p\<close>, and stops early once the handler has switched the timer
  off. It yields the level of the pin at the end of each interrupt, the final state and the
  final level.
\<close>

fun ticks :: "encoding \<Rightarrow> nat \<Rightarrow> mcu \<Rightarrow> bool \<Rightarrow> (bool list \<times> mcu \<times> bool) option" where
  "ticks conv 0 s p = Some ([], s, p)"
| "ticks conv (Suc n) s p =
     (if \<not> TCB_ENABLE s then Some ([], s, p)
      else
        (case TCB0_INT_vect conv (s\<lparr>TCB_CAPT := True\<rparr>) of
           None \<Rightarrow> None
         | Some (ws, s') \<Rightarrow>
             (case ticks conv n s' (drive ws p) of
                None \<Rightarrow> None
              | Some (ls, s'', p'') \<Rightarrow> Some (drive ws p # ls, s'', p''))))"

text \<open>
  The waveform of a run: the level before the first interrupt, then the level after each
  interrupt. Two consecutive levels, starting from the first, make one bit period.
\<close>

definition waveform :: "encoding \<Rightarrow> nat \<Rightarrow> mcu \<Rightarrow> bool \<Rightarrow> bool list option" where
  "waveform conv n s p = map_option (\<lambda>(ls, s', p'). p # ls) (ticks conv n s p)"

subsection \<open>The main loop\<close>

text \<open>
  \<^verbatim>\<open>for (uint8_t i = 2048000 / BAUD_RATE; i > 0; i--) _delay_us(250);\<close>. The division is
  unsigned 32-bit division and its result is cut to 8 bits. \<open>delay_loop i n\<close> counts the
  calls of \<^verbatim>\<open>_delay_us(250)\<close>.
\<close>

function delay_loop :: "uint8_t \<Rightarrow> nat \<Rightarrow> nat" where
  "delay_loop i n = (if i > 0 then delay_loop (i - 1) (Suc n) else n)"
  by pat_completeness auto
termination
proof (relation "measure (\<lambda>(i, n). unat i)")
  show "wf (measure (\<lambda>(i :: uint8_t, n :: nat). unat i))"
    by simp
next
  fix i :: uint8_t and n :: nat
  assume "0 < i"
  then have "i \<noteq> 0"
    by auto
  then have "unat (i - 1) = unat i - 1" and "unat i \<noteq> 0"
    by (simp_all add: unat_minus_one unat_eq_zero)
  then have "unat (i - 1) < unat i"
    by simp
  then show "((i - 1, Suc n), (i, n)) \<in> measure (\<lambda>(i, n). unat i)"
    by simp
qed

declare delay_loop.simps [simp del]

definition guard_delay :: "32 word \<Rightarrow> nat" where
  "guard_delay baud = delay_loop (ucast ((2048000 :: 32 word) div baud)) 0"

text \<open>
  One pass through the body of \<^verbatim>\<open>while (1)\<close>, taken without an interrupt in between.
  When \<^verbatim>\<open>send_encoded_data\<close> returns 0 the inner \<^verbatim>\<open>while\<close> calls it again: the pass
  is \<open>Rejected\<close> and has changed nothing. Otherwise the pass is \<open>Accepted k\<close>, where \<open>k\<close>
  is the number of calls of \<^verbatim>\<open>_delay_us(250)\<close> made before the timer is switched on again.
\<close>

datatype pass_result = Rejected | Accepted nat

definition main_loop_pass :: "32 word \<Rightarrow> mcu \<Rightarrow> (mcu \<times> pass_result) option" where
  "main_loop_pass baud s =
     (case send_encoded_data s transmit_example TRANSMIT_EXAMPLE_SIZE of
        None \<Rightarrow> None
      | Some (s1, r) \<Rightarrow>
          if r = 0 then Some (s1, Rejected)
          else if sending_in_progress s1 \<noteq> 0 \<and> \<not> TCB_ENABLE s1 then
            Some (s1\<lparr>TCB_ENABLE := True\<rparr>, Accepted (guard_delay baud))
          else Some (s1, Accepted 0))"

subsection \<open>The two conventions, as the specification words them\<close>

text \<open>
  G. E. Thomas: a logical 1 is a high-to-low transition at the centre of the bit period and
  the line rests low. IEEE: a logical 1 is a low-to-high transition and the line rests
  high. A bit period without a transition at its centre does not decode.
\<close>

definition rest_level :: "encoding \<Rightarrow> bool" where
  "rest_level conv = (case conv of ENCODING_G_E_THOMAS \<Rightarrow> False | ENCODING_IEEE \<Rightarrow> True)"

definition decode_period :: "encoding \<Rightarrow> bool \<Rightarrow> bool \<Rightarrow> bool option" where
  "decode_period conv a b =
     (if a = b then None
      else Some (case conv of ENCODING_G_E_THOMAS \<Rightarrow> a | ENCODING_IEEE \<Rightarrow> b))"

fun decode_wave :: "encoding \<Rightarrow> bool list \<Rightarrow> bool option list" where
  "decode_wave conv (a # b # ls) = decode_period conv a b # decode_wave conv ls"
| "decode_wave conv ls = []"

text \<open>The bits of a byte sequence, most significant bit first.\<close>

definition bits_msb_first :: "uint8_t \<Rightarrow> bool list" where
  "bits_msb_first w = map (bit w) [7, 6, 5, 4, 3, 2, 1, 0]"

definition packet_bits :: "uint8_t list \<Rightarrow> bool list" where
  "packet_bits bs = concat (map bits_msb_first bs)"

text \<open>
  The levels of a bit list in the G. E. Thomas code: a 1 is high then low, a 0 is low then
  high.
\<close>

fun thomas_levels :: "bool list \<Rightarrow> bool list" where
  "thomas_levels [] = []"
| "thomas_levels (b # bs) = b # (\<not> b) # thomas_levels bs"

text \<open>
  The bits queued for transmission, \<^verbatim>\<open>transmit_buffer[0]\<close> to
  \<^verbatim>\<open>transmit_buffer[transmit_buffer_length - 1]\<close> most significant bit first, and the
  position in that list of the bit the handler reads next.
\<close>

definition queued_bits :: "mcu \<Rightarrow> bool list" where
  "queued_bits s = packet_bits (take (unat (transmit_buffer_length s)) (transmit_buffer s))"

definition bit_position :: "mcu \<Rightarrow> nat" where
  "bit_position s = 8 * unat (transmit_buffer_index s) + (7 - unat (bit_index s))"

text \<open>
  The ceiling that the specification gives for the guard interval,
  \<open>ceil(2048000 / targetBitRate)\<close>.
\<close>

definition guardTicks :: "nat \<Rightarrow> nat" where
  "guardTicks targetBitRate = nat \<lceil>2048000 / real targetBitRate\<rceil>"

subsection \<open>The invariant of the indices\<close>

text \<open>
  \<open>index_in_packet\<close> is the invariant of the specification: while a packet is in progress
  the byte index is below the length. \<open>consistent\<close> adds what the program needs to keep
  it: the buffer has its 255 bytes, the bit index is a bit position, and an idle encoder
  has its byte index at 0 and, if the timer still runs, nothing left to send.
\<close>

definition index_in_packet :: "mcu \<Rightarrow> bool" where
  "index_in_packet s \<longleftrightarrow>
     (sending_in_progress s \<noteq> 0 \<longrightarrow> transmit_buffer_index s < transmit_buffer_length s)"

definition consistent :: "mcu \<Rightarrow> bool" where
  "consistent s \<longleftrightarrow>
     length (transmit_buffer s) = TRANSMIT_BUFFER_SIZE \<and>
     bit_index s \<le> 7 \<and>
     index_in_packet s \<and>
     (sending_in_progress s = 0 \<longrightarrow>
        transmit_buffer_index s = 0 \<and> (TCB_ENABLE s \<longrightarrow> transmit_buffer_length s \<le> 1))"

subsection \<open>States used in the worked examples\<close>

text \<open>
  The G. E. Thomas build after its first packet, sent from reset with the one-byte payload
  \<open>0x41\<close>: the handler has sent \<^verbatim>\<open>transmit_buffer[0]\<close> and \<^verbatim>\<open>transmit_buffer[1]\<close>,
  parked the pin low and switched the timer off.
\<close>

definition after_first_packet :: mcu where
  "after_first_packet =
     \<lparr> transmit_buffer = 0x41 # replicate 254 0,
       transmit_buffer_length = 2,
       sending_in_progress = 0,
       prev = 0,
       clk = 1,
       transmit_buffer_index = 0,
       bit_index = 6,
       TCB_ENABLE = False,
       TCB_CAPT = False \<rparr>"

text \<open>
  The IEEE build in the middle of its first packet, sent from reset with the one-byte
  payload \<open>0x00\<close>: the handler is about to run for the data edge of the last bit of
  \<^verbatim>\<open>transmit_buffer[1]\<close>.
\<close>

definition ieee_last_bit :: mcu where
  "ieee_last_bit =
     \<lparr> transmit_buffer = replicate 255 0,
       transmit_buffer_length = 2,
       sending_in_progress = 1,
       prev = 0,
       clk = 0,
       transmit_buffer_index = 1,
       bit_index = 0,
       TCB_ENABLE = True,
       TCB_CAPT = False \<rparr>"

text \<open>
  The G. E. Thomas build at the start of its first packet, sent from reset with the
  one-byte payload \<open>0xA5\<close>: the state that \<^verbatim>\<open>send_encoded_data\<close> leaves, with the timer
  running and the pin low.
\<close>

definition thomas_packet_start :: mcu where
  "thomas_packet_start =
     \<lparr> transmit_buffer = 0xA5 # replicate 254 0,
       transmit_buffer_length = 2,
       sending_in_progress = 1,
       prev = 0,
       clk = 1,
       transmit_buffer_index = 0,
       bit_index = 6,
       TCB_ENABLE = True,
       TCB_CAPT = False \<rparr>"

text \<open>
  The first packet after reset: \<^verbatim>\<open>main\<close> up to its loop, one call of
  \<^verbatim>\<open>send_encoded_data\<close>, then up to \<open>fuel\<close> timer interrupts.
\<close>

definition first_packet ::
  "encoding \<Rightarrow> bool \<Rightarrow> uint8_t list \<Rightarrow> uint8_t \<Rightarrow> nat \<Rightarrow> (bool list \<times> mcu \<times> bool) option" where
  "first_packet conv p0 transmit_data num_bytes fuel =
     (case main_init conv p0 of
        (s, p) \<Rightarrow>
          (case send_encoded_data s transmit_data num_bytes of
             None \<Rightarrow> None
           | Some (s1, r) \<Rightarrow> ticks conv fuel s1 p))"

definition first_packet_waveform ::
  "encoding \<Rightarrow> bool \<Rightarrow> uint8_t list \<Rightarrow> uint8_t \<Rightarrow> nat \<Rightarrow> bool list option" where
  "first_packet_waveform conv p0 transmit_data num_bytes fuel =
     map_option (\<lambda>(ls, s', p'). snd (main_init conv p0) # ls)
       (first_packet conv p0 transmit_data num_bytes fuel)"

section \<open>Properties of send_encoded_data\<close>

lemma unat_succ_below: "(i :: uint8_t) < n \<Longrightarrow> unat (i + 1) = Suc (unat i)"
proof -
  assume "i < n"
  then have "unat i < unat n"
    by (simp add: word_less_nat_alt)
  moreover have "unat n < 256"
    using unsigned_less [of n] by simp
  ultimately show ?thesis
    by (simp add: unat_word_ariths)
qed

text \<open>The copy loop finishes, without leaving either array, when both hold \<open>n\<close> bytes.\<close>

lemma copy_loop_defined:
  "unat n \<le> length d \<Longrightarrow> unat n \<le> length buf \<Longrightarrow>
   \<exists>buf'. copy_loop i n d buf = Some buf' \<and> length buf' = length buf"
proof (induction i n d buf rule: copy_loop.induct)
  case (1 i num_bytes transmit_data buf)
  show ?case
  proof (cases "i < num_bytes")
    case True
    then have "unat i < unat num_bytes"
      by (simp add: word_less_nat_alt)
    with "1.prems" have inr: "unat i < length transmit_data \<and> unat i < length buf"
      by simp
    from "1.IH" [OF True inr] "1.prems" obtain buf' where
      "copy_loop (i + 1) num_bytes transmit_data (buf[unat i := transmit_data ! unat i])
         = Some buf'"
      and "length buf' = length buf"
      by auto
    with True inr show ?thesis
      by (subst copy_loop.simps) simp
  next
    case False
    then show ?thesis
      by (subst copy_loop.simps) simp
  qed
qed

text \<open>What it leaves in the buffer: the payload from index 0 on, the old bytes behind it.\<close>

lemma copy_loop_content:
  "i \<le> n \<Longrightarrow> unat n \<le> length d \<Longrightarrow> unat n \<le> length buf \<Longrightarrow>
   copy_loop i n d buf =
     Some (take (unat i) buf @ take (unat n - unat i) (drop (unat i) d) @ drop (unat n) buf)"
proof (induction i n d buf rule: copy_loop.induct)
  case (1 i num_bytes transmit_data buf)
  let ?buf1 = "buf[unat i := transmit_data ! unat i]"
  show ?case
  proof (cases "i < num_bytes")
    case True
    then have lt: "unat i < unat num_bytes"
      by (simp add: word_less_nat_alt)
    with "1.prems" have inr: "unat i < length transmit_data \<and> unat i < length buf"
      by simp
    have su: "unat (i + 1) = Suc (unat i)"
      using True by (rule unat_succ_below)
    have le: "i + 1 \<le> num_bytes"
      using True by (simp add: inc_le)
    have "copy_loop (i + 1) num_bytes transmit_data ?buf1 =
            Some (take (unat (i + 1)) ?buf1 @
                  take (unat num_bytes - unat (i + 1)) (drop (unat (i + 1)) transmit_data) @
                  drop (unat num_bytes) ?buf1)"
      using "1.IH" [OF True inr le] "1.prems" by simp
    moreover have "take (Suc (unat i)) ?buf1 = take (unat i) buf @ [transmit_data ! unat i]"
      using inr by (simp add: take_Suc_conv_app_nth)
    moreover have "take (unat num_bytes - unat i) (drop (unat i) transmit_data) =
        transmit_data ! unat i #
        take (unat num_bytes - Suc (unat i)) (drop (Suc (unat i)) transmit_data)"
      using inr lt by (metis Cons_nth_drop_Suc Suc_diff_Suc take_Suc_Cons)
    moreover have "drop (unat num_bytes) ?buf1 = drop (unat num_bytes) buf"
      using lt by simp
    ultimately show ?thesis
      using True inr su by (subst copy_loop.simps) simp
  next
    case False
    with "1.prems" have "i = num_bytes"
      by simp
    then show ?thesis
      by (subst copy_loop.simps) simp
  qed
qed

lemma send_payload_at_index_0:
  assumes "sending_in_progress s = 0"
    and "unat n \<le> length d" and "unat n \<le> length (transmit_buffer s)"
  shows "send_encoded_data s d n =
           Some (s\<lparr>transmit_buffer := take (unat n) d @ drop (unat n) (transmit_buffer s),
                   transmit_buffer_length := n + 1,
                   sending_in_progress := 1\<rparr>, 1)"
  using assms by (simp add: send_encoded_data_def copy_loop_content)

text \<open>
  C6. A call of \<^verbatim>\<open>send_encoded_data\<close> while \<^verbatim>\<open>sending_in_progress\<close> is set returns 0 and
  changes nothing: the buffer, the length, the flag and every other variable are as
  before, whatever the payload and the byte count.
\<close>

theorem send_while_busy_rejected:
  "sending_in_progress s \<noteq> 0 \<Longrightarrow> send_encoded_data s transmit_data num_bytes = Some (s, 0)"
  by (simp add: send_encoded_data_def)

theorem send_while_busy_rejected_witness:
  "sending_in_progress (after_first_packet\<lparr>sending_in_progress := 1\<rparr>) \<noteq> 0 \<and>
   send_encoded_data (after_first_packet\<lparr>sending_in_progress := 1\<rparr>) [0x42] 1
     = Some (after_first_packet\<lparr>sending_in_progress := 1\<rparr>, 0)"
proof -
  have busy: "sending_in_progress (after_first_packet\<lparr>sending_in_progress := 1\<rparr>) \<noteq> 0"
    by simp
  from busy send_while_busy_rejected [OF busy, of "[0x42]" 1] show ?thesis
    by simp
qed

text \<open>
  C4. The claim reads: a call of submit made while idle copies the payload into the buffer
  behind the framing byte, which stays at index 0, sets the length to count + 1, sets busy
  and returns true. The call that \<^verbatim>\<open>main\<close> makes right after start-up,
  \<^verbatim>\<open>send_encoded_data(transmit_example, 18)\<close>, returns 1, sets the length to 19 and sets
  the flag, but leaves the 18 payload bytes at the indices 0 to 17: the byte at index 0 is
  \<open>0x48\<close>, the first byte of the payload, and \<^verbatim>\<open>START_BYTE\<close> is gone.
\<close>

theorem send_overwrites_start_byte:
  "send_encoded_data (fst (main_init ENCODING_G_E_THOMAS False))
       transmit_example TRANSMIT_EXAMPLE_SIZE =
     Some ((fst (main_init ENCODING_G_E_THOMAS False))
             \<lparr>transmit_buffer := transmit_example @ replicate 237 0,
              transmit_buffer_length := 19,
              sending_in_progress := 1\<rparr>, 1) \<and>
   transmit_buffer (fst (main_init ENCODING_G_E_THOMAS False)) ! 0 = START_BYTE \<and>
   (transmit_example @ replicate 237 0) ! 0 = 0x48 \<and>
   (transmit_example @ replicate 237 0) ! 0 \<noteq> START_BYTE \<and>
   take 18 (transmit_example @ replicate 237 0) = transmit_example"
  by (simp add: send_payload_at_index_0 main_init_def TCB0_init_def reset_state_def
      TRANSMIT_BUFFER_SIZE_def TRANSMIT_EXAMPLE_SIZE_def transmit_example_def START_BYTE_def)

text \<open>
  C5. The claim reads: a call whose byte count exceeds the capacity minus the framing
  byte, such as 255 bytes, returns false and leaves buffer, length and busy unchanged.
  The function has no check of the count: right after start-up a 255-byte payload is
  accepted, fills the whole buffer, and the stored length wraps to 0.
\<close>

theorem send_oversized_counterexample:
  "send_encoded_data (TCB0_init (reset_state ENCODING_G_E_THOMAS)) (replicate 255 0xAA) 255 =
     Some ((TCB0_init (reset_state ENCODING_G_E_THOMAS))
             \<lparr>transmit_buffer := replicate 255 0xAA,
              transmit_buffer_length := 0,
              sending_in_progress := 1\<rparr>, 1)"
  by (simp add: send_payload_at_index_0 TCB0_init_def reset_state_def TRANSMIT_BUFFER_SIZE_def)

text \<open>
  C5, amended. \<^verbatim>\<open>send_encoded_data\<close> rejects a call only when \<^verbatim>\<open>sending_in_progress\<close> is
  set. Made while it is 0, a call with any byte count from 0 to 255 (and a payload of that
  many bytes) returns 1, sets \<^verbatim>\<open>sending_in_progress\<close> to 1 and stores the count plus one
  modulo 256 as the length, which is 0 for 255 bytes.
\<close>

theorem send_has_no_size_check:
  assumes "sending_in_progress s = 0"
    and "length (transmit_buffer s) = TRANSMIT_BUFFER_SIZE"
    and "unat num_bytes \<le> length transmit_data"
  shows "\<exists>s'. send_encoded_data s transmit_data num_bytes = Some (s', 1) \<and>
           sending_in_progress s' = 1 \<and>
           unat (transmit_buffer_length s') = (unat num_bytes + 1) mod 256"
proof -
  have "unat num_bytes < 256"
    using unsigned_less [of num_bytes] by simp
  with assms(2) have "unat num_bytes \<le> length (transmit_buffer s)"
    by (simp add: TRANSMIT_BUFFER_SIZE_def)
  from send_payload_at_index_0 [OF assms(1) assms(3) this] show ?thesis
    by (simp add: unat_word_ariths)
qed

theorem send_has_no_size_check_witness:
  "sending_in_progress after_first_packet = 0 \<and>
   length (transmit_buffer after_first_packet) = TRANSMIT_BUFFER_SIZE \<and>
   unat (255 :: uint8_t) \<le> length (replicate 255 (0xAA :: uint8_t)) \<and>
   (\<exists>s'. send_encoded_data after_first_packet (replicate 255 0xAA) 255 = Some (s', 1) \<and>
      sending_in_progress s' = 1 \<and>
      unat (transmit_buffer_length s') = (unat (255 :: uint8_t) + 1) mod 256)"
proof -
  have h1: "sending_in_progress after_first_packet = 0"
    by (simp add: after_first_packet_def)
  have h2: "length (transmit_buffer after_first_packet) = TRANSMIT_BUFFER_SIZE"
    by (simp add: after_first_packet_def TRANSMIT_BUFFER_SIZE_def)
  have h3: "unat (255 :: uint8_t) \<le> length (replicate 255 (0xAA :: uint8_t))"
    by simp
  from send_has_no_size_check [OF h1 h2 h3] h1 h2 h3 show ?thesis
    by blast
qed

section \<open>The guard delay of the main loop\<close>

lemma delay_loop_count: "delay_loop i n = n + unat i"
proof (induction i n rule: delay_loop.induct)
  case (1 i n)
  show ?case
  proof (cases "0 < i")
    case True
    then have "i \<noteq> 0"
      by auto
    then have "unat (i - 1) = unat i - 1" and "unat i \<noteq> 0"
      by (simp_all add: unat_minus_one unat_eq_zero)
    with "1.IH" [OF True] True show ?thesis
      by (subst delay_loop.simps) simp
  next
    case False
    then have "i = 0"
      by (simp add: word_gt_0)
    then show ?thesis
      by (subst delay_loop.simps) simp
  qed
qed

lemma guard_delay_floor: "guard_delay baud = (2048000 div unat baud) mod 256"
  by (simp add: guard_delay_def delay_loop_count unsigned_ucast_eq take_bit_eq_mod unat_div)

text \<open>
  C8. The claim reads: after a packet the main loop performs \<open>ceil(2048000 / bit rate)\<close>
  delay iterations before it switches the timer on again. With the configured rate of
  50000 the pass that follows the first packet performs 40 iterations; the ceiling is 41.
\<close>

theorem guard_delay_counterexample:
  "main_loop_pass BAUD_RATE after_first_packet =
     Some (after_first_packet\<lparr>transmit_buffer := transmit_example @ replicate 237 0,
                              transmit_buffer_length := 19,
                              sending_in_progress := 1,
                              TCB_ENABLE := True\<rparr>, Accepted 40) \<and>
   guardTicks (unat BAUD_RATE) = 41"
  by (simp add: main_loop_pass_def send_payload_at_index_0 after_first_packet_def
      transmit_example_def TRANSMIT_EXAMPLE_SIZE_def guard_delay_floor BAUD_RATE_def
      guardTicks_def)

text \<open>
  C8, amended. In the pass of the main loop that follows a finished packet (the flag
  clear, the timer off) the next packet is accepted and the loop calls \<^verbatim>\<open>_delay_us(250)\<close>
  exactly \<open>(2048000 div bit rate) mod 256\<close> times, the quotient rounded down and cut to
  8 bits, before it sets the enable bit of the timer; that is 40 for the rate of 50000.
\<close>

theorem guard_delay_is_floor:
  assumes "baud \<noteq> 0"
    and "sending_in_progress s = 0" and "\<not> TCB_ENABLE s"
    and "length (transmit_buffer s) = TRANSMIT_BUFFER_SIZE"
  shows "\<exists>s'. main_loop_pass baud s =
                Some (s', Accepted ((2048000 div unat baud) mod 256)) \<and>
              TCB_ENABLE s' \<and> sending_in_progress s' = 1"
proof -
  have "unat TRANSMIT_EXAMPLE_SIZE \<le> length transmit_example"
    by (simp add: TRANSMIT_EXAMPLE_SIZE_def transmit_example_def)
  moreover have "unat TRANSMIT_EXAMPLE_SIZE \<le> length (transmit_buffer s)"
    using assms(4) by (simp add: TRANSMIT_EXAMPLE_SIZE_def TRANSMIT_BUFFER_SIZE_def)
  ultimately show ?thesis
    using assms(2,3)
    by (simp add: main_loop_pass_def send_payload_at_index_0 guard_delay_floor)
qed

theorem guard_delay_is_floor_witness:
  "BAUD_RATE \<noteq> 0 \<and> sending_in_progress after_first_packet = 0 \<and>
   \<not> TCB_ENABLE after_first_packet \<and>
   length (transmit_buffer after_first_packet) = TRANSMIT_BUFFER_SIZE \<and>
   (\<exists>s'. main_loop_pass BAUD_RATE after_first_packet = Some (s', Accepted 40) \<and>
      TCB_ENABLE s' \<and> sending_in_progress s' = 1)"
proof -
  have h1: "BAUD_RATE \<noteq> 0"
    by (simp add: BAUD_RATE_def)
  have h2: "sending_in_progress after_first_packet = 0"
    by (simp add: after_first_packet_def)
  have h3: "\<not> TCB_ENABLE after_first_packet"
    by (simp add: after_first_packet_def)
  have h4: "length (transmit_buffer after_first_packet) = TRANSMIT_BUFFER_SIZE"
    by (simp add: after_first_packet_def TRANSMIT_BUFFER_SIZE_def)
  have "(2048000 div unat BAUD_RATE) mod 256 = 40"
    by (simp add: BAUD_RATE_def)
  with guard_delay_is_floor [OF h1 h2 h3 h4] h1 h2 h3 h4 show ?thesis
    by simp
qed

section \<open>The interrupt handler, step by step\<close>

lemma ISR_clock_edge:
  "clk s \<noteq> 0 \<Longrightarrow> TCB0_INT_vect conv s = Some ([OUTTGL], s\<lparr>clk := 0, TCB_CAPT := False\<rparr>)"
  by (simp add: TCB0_INT_vect_def)

text \<open>The three ways through the data edge: inside a byte, on to the next byte, end of packet.\<close>

lemma ISR_data_edge_bit:
  assumes "clk s = 0" and "bit_index s \<noteq> 0"
    and "unat (transmit_buffer_index s) < length (transmit_buffer s)"
    and "unat (bit_index s) < 15"
  shows "TCB0_INT_vect conv s =
           Some (if next_bit_of s = prev s then [OUTTGL] else [],
                 s\<lparr>bit_index := bit_index s - 1, clk := 1, prev := next_bit_of s,
                   TCB_CAPT := False\<rparr>)"
  using assms by (simp add: TCB0_INT_vect_def Let_def)

lemma ISR_data_edge_byte:
  assumes "clk s = 0" and "bit_index s = 0"
    and "transmit_buffer_index s + 1 < transmit_buffer_length s"
    and "unat (transmit_buffer_index s) < length (transmit_buffer s)"
  shows "TCB0_INT_vect conv s =
           Some (if next_bit_of s = prev s then [OUTTGL] else [],
                 s\<lparr>bit_index := 7, transmit_buffer_index := transmit_buffer_index s + 1,
                   clk := 1, prev := next_bit_of s, TCB_CAPT := False\<rparr>)"
  using assms by (simp add: TCB0_INT_vect_def Let_def not_le)

lemma ISR_data_edge_last:
  assumes "clk s = 0" and "bit_index s = 0"
    and "transmit_buffer_length s \<le> transmit_buffer_index s + 1"
    and "unat (transmit_buffer_index s) < length (transmit_buffer s)"
  shows "TCB0_INT_vect conv s =
           Some ((if next_bit_of s = prev s then [OUTTGL] else []) @ [rest_write conv],
                 s\<lparr>bit_index := 6, transmit_buffer_index := 0, TCB_ENABLE := False,
                   sending_in_progress := 0, clk := 1, prev := next_bit_of s,
                   TCB_CAPT := False\<rparr>)"
  using assms by (simp add: TCB0_INT_vect_def Let_def)

lemma ISR_data_edge_after:
  "clk s = 0 \<Longrightarrow> TCB0_INT_vect conv s = Some (ws, s') \<Longrightarrow>
   clk s' = 1 \<and> prev s' = next_bit_of s"
  by (auto simp add: TCB0_INT_vect_def Let_def split: if_splits)

lemma ISR_data_edge:
  assumes "clk s = 0"
    and "unat (transmit_buffer_index s) < length (transmit_buffer s)"
    and "unat (bit_index s) < 15"
  shows "\<exists>ws s'. TCB0_INT_vect conv s = Some (ws, s') \<and>
           (OUTTGL \<in> set ws \<longleftrightarrow> next_bit_of s = prev s) \<and> clk s' = 1"
proof -
  have nt: "rest_write conv \<noteq> OUTTGL"
    by (cases conv) (simp_all add: rest_write_def)
  consider (bit) "bit_index s \<noteq> 0"
    | (byte) "bit_index s = 0" "transmit_buffer_index s + 1 < transmit_buffer_length s"
    | (last) "bit_index s = 0" "transmit_buffer_length s \<le> transmit_buffer_index s + 1"
    by fastforce
  then show ?thesis
  proof cases
    case bit
    from ISR_data_edge_bit [OF assms(1) bit assms(2,3), of conv] show ?thesis
      by simp
  next
    case byte
    from ISR_data_edge_byte [OF assms(1) byte assms(2), of conv] show ?thesis
      by simp
  next
    case last
    from ISR_data_edge_last [OF assms(1) last assms(2), of conv] nt show ?thesis
      by auto
  qed
qed

lemma drive_rest_write: "drive (ws @ [rest_write conv]) p = rest_level conv"
  by (cases conv) (simp_all add: drive_def rest_write_def rest_level_def)

text \<open>
  C3. A data-edge run of the handler that consumes the last bit of the buffer
  (\<^verbatim>\<open>bit_index\<close> is 0 and the incremented \<^verbatim>\<open>transmit_buffer_index\<close> reaches the length)
  leaves the pin at the rest level of the convention whatever its level was, resets
  \<^verbatim>\<open>transmit_buffer_index\<close> to 0 and \<^verbatim>\<open>bit_index\<close> to 6, clears the enable bit of the timer
  and clears \<^verbatim>\<open>sending_in_progress\<close>; the next interrupt will be a clock edge.
\<close>

theorem packet_end_step:
  assumes "clk s = 0" and "bit_index s = 0"
    and "transmit_buffer_length s \<le> transmit_buffer_index s + 1"
    and "unat (transmit_buffer_index s) < length (transmit_buffer s)"
  shows "\<exists>ws s'. TCB0_INT_vect conv s = Some (ws, s') \<and>
           drive ws p = rest_level conv \<and>
           transmit_buffer_index s' = 0 \<and> bit_index s' = 6 \<and>
           \<not> TCB_ENABLE s' \<and> sending_in_progress s' = 0 \<and> clk s' = 1"
  using ISR_data_edge_last [OF assms, of conv] by (simp add: drive_rest_write)

theorem packet_end_step_witness:
  "clk ieee_last_bit = 0 \<and> bit_index ieee_last_bit = 0 \<and>
   transmit_buffer_length ieee_last_bit \<le> transmit_buffer_index ieee_last_bit + 1 \<and>
   unat (transmit_buffer_index ieee_last_bit) < length (transmit_buffer ieee_last_bit) \<and>
   (\<exists>ws s'. TCB0_INT_vect ENCODING_IEEE ieee_last_bit = Some (ws, s') \<and>
      drive ws False = rest_level ENCODING_IEEE \<and>
      transmit_buffer_index s' = 0 \<and> bit_index s' = 6 \<and>
      \<not> TCB_ENABLE s' \<and> sending_in_progress s' = 0 \<and> clk s' = 1)"
proof -
  have h1: "clk ieee_last_bit = 0" and h2: "bit_index ieee_last_bit = 0"
    and h3: "transmit_buffer_length ieee_last_bit \<le> transmit_buffer_index ieee_last_bit + 1"
    and h4: "unat (transmit_buffer_index ieee_last_bit) < length (transmit_buffer ieee_last_bit)"
    by (simp_all add: ieee_last_bit_def)
  from packet_end_step [OF h1 h2 h3 h4, of ENCODING_IEEE False] h1 h2 h3 h4 show ?thesis
    by blast
qed

section \<open>The invariant of the indices\<close>

lemma copy_loop_length: "copy_loop i n d buf = Some buf' \<Longrightarrow> length buf' = length buf"
proof (induction i n d buf rule: copy_loop.induct)
  case (1 i num_bytes transmit_data buf)
  show ?case
  proof (cases "i < num_bytes")
    case True
    with "1.prems" have inr: "unat i < length transmit_data \<and> unat i < length buf"
      by (subst (asm) copy_loop.simps) (simp split: if_splits)
    with "1.prems" True have
      "copy_loop (i + 1) num_bytes transmit_data (buf[unat i := transmit_data ! unat i])
         = Some buf'"
      by (subst (asm) copy_loop.simps) simp
    from "1.IH" [OF True inr this] show ?thesis
      by simp
  next
    case False
    with "1.prems" show ?thesis
      by (subst (asm) copy_loop.simps) simp
  qed
qed

lemma consistent_CAPT: "consistent (s\<lparr>TCB_CAPT := b\<rparr>) = consistent s"
  by (simp add: consistent_def index_in_packet_def)

lemma consistent_init: "consistent (fst (main_init conv p0))"
  by (simp add: main_init_def TCB0_init_def reset_state_def consistent_def index_in_packet_def
      TRANSMIT_BUFFER_SIZE_def)

lemma consistent_send:
  assumes "consistent s" and "unat n < TRANSMIT_BUFFER_SIZE"
    and "send_encoded_data s d n = Some (s', r)"
  shows "consistent s'"
proof (cases "sending_in_progress s = 0")
  case True
  from assms(2) have "unat (n + 1) = unat n + 1"
    by (simp add: unat_word_ariths TRANSMIT_BUFFER_SIZE_def)
  then have pos: "0 < n + 1"
    by (simp add: word_less_nat_alt)
  from assms(3) True obtain buf where
    c: "copy_loop 0 n d (transmit_buffer s) = Some buf"
    and s': "s' = s\<lparr>transmit_buffer := buf, transmit_buffer_length := n + 1,
                    sending_in_progress := 1\<rparr>"
    by (auto simp add: send_encoded_data_def split: option.splits)
  from c have "length buf = length (transmit_buffer s)"
    by (rule copy_loop_length)
  with assms(1) True pos s' show ?thesis
    by (simp add: consistent_def index_in_packet_def)
next
  case False
  with assms(3) have "s' = s"
    by (simp add: send_encoded_data_def)
  with assms(1) show ?thesis
    by simp
qed

lemma consistent_ISR:
  assumes "consistent s" and "TCB_ENABLE s"
  shows "\<exists>ws s'. TCB0_INT_vect conv s = Some (ws, s') \<and> consistent s'"
proof (cases "clk s = 0")
  case False
  with assms(1) show ?thesis
    by (simp add: ISR_clock_edge consistent_def index_in_packet_def)
next
  case True
  from assms(1) have b7: "unat (bit_index s) \<le> 7"
    by (simp add: consistent_def word_le_nat_alt)
  then have b15: "unat (bit_index s) < 15"
    by simp
  have "unat (transmit_buffer_length s) < 256"
    using unsigned_less [of "transmit_buffer_length s"] by simp
  then have l255: "unat (transmit_buffer_length s) \<le> 255"
    by simp
  from assms(1) have inr: "unat (transmit_buffer_index s) < length (transmit_buffer s)"
    using l255
    by (cases "sending_in_progress s = 0")
       (auto simp add: consistent_def index_in_packet_def TRANSMIT_BUFFER_SIZE_def
          word_less_nat_alt)
  consider (bit) "bit_index s \<noteq> 0"
    | (byte) "bit_index s = 0" "transmit_buffer_index s + 1 < transmit_buffer_length s"
    | (last) "bit_index s = 0" "transmit_buffer_length s \<le> transmit_buffer_index s + 1"
    by fastforce
  then show ?thesis
  proof cases
    case bit
    then have "unat (bit_index s - 1) = unat (bit_index s) - 1"
      by (simp add: unat_minus_one)
    with b7 have "bit_index s - 1 \<le> 7"
      by (simp add: word_le_nat_alt)
    with ISR_data_edge_bit [OF True bit inr b15, of conv] assms(1) show ?thesis
      by (simp add: consistent_def index_in_packet_def)
  next
    case byte
    have "sending_in_progress s \<noteq> 0"
    proof
      assume "sending_in_progress s = 0"
      with assms have "transmit_buffer_index s = 0" and "transmit_buffer_length s \<le> 1"
        by (simp_all add: consistent_def)
      with byte(2) show False
        by simp
    qed
    with ISR_data_edge_byte [OF True byte inr, of conv] assms(1) byte(2) show ?thesis
      by (simp add: consistent_def index_in_packet_def)
  next
    case last
    with ISR_data_edge_last [OF True last inr, of conv] assms(1) show ?thesis
      by (simp add: consistent_def index_in_packet_def)
  qed
qed

lemma consistent_pass:
  assumes "consistent s" and "main_loop_pass baud s = Some (s', r)"
  shows "consistent s'"
proof -
  have v: "unat TRANSMIT_EXAMPLE_SIZE < TRANSMIT_BUFFER_SIZE"
    by (simp add: TRANSMIT_EXAMPLE_SIZE_def TRANSMIT_BUFFER_SIZE_def)
  from assms(2) obtain s1 r1 where
    snd: "send_encoded_data s transmit_example TRANSMIT_EXAMPLE_SIZE = Some (s1, r1)"
    and s': "s' = s1 \<or> (sending_in_progress s1 \<noteq> 0 \<and> s' = s1\<lparr>TCB_ENABLE := True\<rparr>)"
    by (auto simp add: main_loop_pass_def split: option.splits if_splits)
  from consistent_send [OF assms(1) v snd] have "consistent s1" .
  with s' show ?thesis
    by (auto simp add: consistent_def index_in_packet_def)
qed

text \<open>
  C7. The claim reads: the byte index is below the length whenever busy is set, and every
  accepted submit, for any accepted byte count, establishes this. Right after start-up a
  255-byte payload is accepted; the stored length wraps to 0, the flag is set, and the
  byte index 0 is not below the length 0.
\<close>

theorem index_invariant_counterexample:
  "send_encoded_data (fst (main_init ENCODING_G_E_THOMAS False)) (replicate 255 0xAA) 255 =
     Some ((fst (main_init ENCODING_G_E_THOMAS False))
             \<lparr>transmit_buffer := replicate 255 0xAA,
              transmit_buffer_length := 0,
              sending_in_progress := 1\<rparr>, 1) \<and>
   \<not> index_in_packet ((fst (main_init ENCODING_G_E_THOMAS False))
             \<lparr>transmit_buffer := replicate 255 0xAA,
              transmit_buffer_length := 0,
              sending_in_progress := 1\<rparr>)"
  by (simp add: send_payload_at_index_0 main_init_def TCB0_init_def reset_state_def
      TRANSMIT_BUFFER_SIZE_def index_in_packet_def)

text \<open>
  C7, amended. \<^verbatim>\<open>transmit_buffer_index < transmit_buffer_length\<close> holds whenever
  \<^verbatim>\<open>sending_in_progress\<close> is set, in every state the program reaches as long as no call of
  \<^verbatim>\<open>send_encoded_data\<close> passes 255 bytes: the state after start-up is consistent; a call
  with at most 254 bytes keeps consistency, accepted or not; so does every run of the
  handler while the timer is enabled, which is always defined there; so does a pass of the
  main loop; and a consistent state satisfies the inequality. The run of the handler that
  passes the last byte resets both indices and clears the flag.
\<close>

theorem index_invariant:
  "consistent (fst (main_init conv p0)) \<and>
   (consistent s \<and> unat n < TRANSMIT_BUFFER_SIZE \<and> send_encoded_data s d n = Some (s1, r)
      \<longrightarrow> consistent s1) \<and>
   (consistent t \<and> TCB_ENABLE t
      \<longrightarrow> (\<exists>ws t'. TCB0_INT_vect conv t = Some (ws, t') \<and> consistent t')) \<and>
   (consistent u \<and> main_loop_pass baud u = Some (u', res) \<longrightarrow> consistent u') \<and>
   (consistent v \<and> sending_in_progress v \<noteq> 0
      \<longrightarrow> transmit_buffer_index v < transmit_buffer_length v) \<and>
   (consistent x \<and> TCB_ENABLE x \<and> clk x = 0 \<and> bit_index x = 0 \<and>
    transmit_buffer_length x \<le> transmit_buffer_index x + 1
      \<longrightarrow> (\<exists>ws x'. TCB0_INT_vect conv x = Some (ws, x') \<and> transmit_buffer_index x' = 0 \<and>
             bit_index x' = 6 \<and> sending_in_progress x' = 0))"
proof (intro conjI impI)
  show "consistent (fst (main_init conv p0))"
    by (rule consistent_init)
next
  assume "consistent s \<and> unat n < TRANSMIT_BUFFER_SIZE \<and>
    send_encoded_data s d n = Some (s1, r)"
  then show "consistent s1"
    using consistent_send by blast
next
  assume "consistent t \<and> TCB_ENABLE t"
  then show "\<exists>ws t'. TCB0_INT_vect conv t = Some (ws, t') \<and> consistent t'"
    using consistent_ISR by blast
next
  assume "consistent u \<and> main_loop_pass baud u = Some (u', res)"
  then show "consistent u'"
    using consistent_pass by blast
next
  assume "consistent v \<and> sending_in_progress v \<noteq> 0"
  then show "transmit_buffer_index v < transmit_buffer_length v"
    by (simp add: consistent_def index_in_packet_def)
next
  assume a: "consistent x \<and> TCB_ENABLE x \<and> clk x = 0 \<and> bit_index x = 0 \<and>
    transmit_buffer_length x \<le> transmit_buffer_index x + 1"
  with consistent_ISR [of x conv] obtain ws x' where
    "TCB0_INT_vect conv x = Some (ws, x')"
    by blast
  moreover from this a have "unat (transmit_buffer_index x) < length (transmit_buffer x)"
    by (auto simp add: TCB0_INT_vect_def split: if_splits)
  ultimately show "\<exists>ws x'. TCB0_INT_vect conv x = Some (ws, x') \<and>
      transmit_buffer_index x' = 0 \<and> bit_index x' = 6 \<and> sending_in_progress x' = 0"
    using a ISR_data_edge_last [of x conv] by auto
qed

theorem index_invariant_witness:
  "consistent (fst (main_init ENCODING_IEEE False)) \<and>
   consistent after_first_packet \<and> unat (1 :: uint8_t) < TRANSMIT_BUFFER_SIZE \<and>
   send_encoded_data after_first_packet [0x42] 1 =
     Some (after_first_packet\<lparr>transmit_buffer := 0x42 # replicate 254 0,
                              sending_in_progress := 1\<rparr>, 1) \<and>
   consistent (after_first_packet\<lparr>transmit_buffer := 0x42 # replicate 254 0,
                                   sending_in_progress := 1\<rparr>) \<and>
   consistent ieee_last_bit \<and> TCB_ENABLE ieee_last_bit \<and>
   (\<exists>ws t'. TCB0_INT_vect ENCODING_IEEE ieee_last_bit = Some (ws, t') \<and> consistent t') \<and>
   main_loop_pass BAUD_RATE after_first_packet =
     Some (after_first_packet\<lparr>transmit_buffer := transmit_example @ replicate 237 0,
                              transmit_buffer_length := 19,
                              sending_in_progress := 1,
                              TCB_ENABLE := True\<rparr>, Accepted 40) \<and>
   consistent (after_first_packet\<lparr>transmit_buffer := transmit_example @ replicate 237 0,
                              transmit_buffer_length := 19,
                              sending_in_progress := 1,
                              TCB_ENABLE := True\<rparr>) \<and>
   sending_in_progress ieee_last_bit \<noteq> 0 \<and>
   transmit_buffer_index ieee_last_bit < transmit_buffer_length ieee_last_bit \<and>
   clk ieee_last_bit = 0 \<and> bit_index ieee_last_bit = 0 \<and>
   transmit_buffer_length ieee_last_bit \<le> transmit_buffer_index ieee_last_bit + 1 \<and>
   (\<exists>ws x'. TCB0_INT_vect ENCODING_IEEE ieee_last_bit = Some (ws, x') \<and>
      transmit_buffer_index x' = 0 \<and> bit_index x' = 6 \<and> sending_in_progress x' = 0)"
proof -
  let ?s1 = "after_first_packet\<lparr>transmit_buffer := 0x42 # replicate 254 0,
                                sending_in_progress := 1\<rparr>"
  let ?u' = "after_first_packet\<lparr>transmit_buffer := transmit_example @ replicate 237 0,
                              transmit_buffer_length := 19,
                              sending_in_progress := 1,
                              TCB_ENABLE := True\<rparr>"
  have c1: "consistent after_first_packet"
    by (simp add: consistent_def index_in_packet_def after_first_packet_def
        TRANSMIT_BUFFER_SIZE_def)
  have c2: "unat (1 :: uint8_t) < TRANSMIT_BUFFER_SIZE"
    by (simp add: TRANSMIT_BUFFER_SIZE_def)
  have c3: "send_encoded_data after_first_packet [0x42] 1 = Some (?s1, 1)"
    by (simp add: send_payload_at_index_0 after_first_packet_def)
  have c4: "consistent ieee_last_bit" and c5: "TCB_ENABLE ieee_last_bit"
    and c6: "sending_in_progress ieee_last_bit \<noteq> 0"
    and c7: "clk ieee_last_bit = 0" and c8: "bit_index ieee_last_bit = 0"
    and c9: "transmit_buffer_length ieee_last_bit \<le> transmit_buffer_index ieee_last_bit + 1"
    by (simp_all add: consistent_def index_in_packet_def ieee_last_bit_def
        TRANSMIT_BUFFER_SIZE_def)
  have c10: "main_loop_pass BAUD_RATE after_first_packet = Some (?u', Accepted 40)"
    by (simp add: main_loop_pass_def send_payload_at_index_0 after_first_packet_def
      transmit_example_def TRANSMIT_EXAMPLE_SIZE_def guard_delay_floor BAUD_RATE_def)
  from index_invariant [of ENCODING_IEEE False after_first_packet 1 "[0x42]" ?s1 1
      ieee_last_bit after_first_packet BAUD_RATE ?u' "Accepted 40" ieee_last_bit ieee_last_bit]
    c1 c2 c3 c4 c5 c6 c7 c8 c9 c10
  show ?thesis
    by simp
qed

section \<open>The waveform\<close>

text \<open>From a consistent state every run of timer interrupts is defined.\<close>

lemma ticks_defined:
  "consistent s \<Longrightarrow> \<exists>ls s' p'. ticks conv n s p = Some (ls, s', p') \<and> consistent s'"
proof (induction n arbitrary: s p)
  case 0
  then show ?case
    by simp
next
  case (Suc n)
  show ?case
  proof (cases "TCB_ENABLE s")
    case False
    with Suc.prems show ?thesis
      by simp
  next
    case True
    with Suc.prems consistent_ISR [of "s\<lparr>TCB_CAPT := True\<rparr>" conv] obtain ws s1 where
      isr: "TCB0_INT_vect conv (s\<lparr>TCB_CAPT := True\<rparr>) = Some (ws, s1)" and "consistent s1"
      by (auto simp add: consistent_CAPT)
    from Suc.IH [OF this(2), of "drive ws p"] isr True show ?thesis
      by auto
  qed
qed

text \<open>
  Two interrupts from a clock edge: the first inverts the pin, the second is a data edge
  and leaves the handler at a clock edge again.
\<close>

lemma ticks_two:
  assumes "clk s \<noteq> 0" and "ticks conv (Suc (Suc n)) s p = Some (ls, sf, pf)"
  shows "ls = [] \<or> ls = [\<not> p] \<or>
         (\<exists>s2 q ls2. clk s2 \<noteq> 0 \<and> ticks conv n s2 q = Some (ls2, sf, pf) \<and>
            ls = (\<not> p) # q # ls2)"
proof (cases "TCB_ENABLE s")
  case False
  with assms(2) show ?thesis
    by simp
next
  case True
  let ?s1 = "s\<lparr>TCB_CAPT := True, clk := 0, TCB_CAPT := False\<rparr>"
  from assms(1) have "TCB0_INT_vect conv (s\<lparr>TCB_CAPT := True\<rparr>) = Some ([OUTTGL], ?s1)"
    by (simp add: ISR_clock_edge)
  with True assms(2) obtain ls1 where
    t1: "ticks conv (Suc n) ?s1 (\<not> p) = Some (ls1, sf, pf)" and ls: "ls = (\<not> p) # ls1"
    by (auto simp add: drive_def split: option.splits)
  show ?thesis
  proof (cases "TCB_ENABLE ?s1")
    case False
    with t1 ls show ?thesis
      by simp
  next
    case en: True
    with t1 obtain ws s2 ls2 where
      isr2: "TCB0_INT_vect conv (?s1\<lparr>TCB_CAPT := True\<rparr>) = Some (ws, s2)"
      and t2: "ticks conv n s2 (drive ws (\<not> p)) = Some (ls2, sf, pf)"
      and ls1: "ls1 = drive ws (\<not> p) # ls2"
      by (auto split: option.splits)
    from isr2 have "clk s2 = 1"
      using ISR_data_edge_after [of "?s1\<lparr>TCB_CAPT := True\<rparr>" conv ws s2] by simp
    then have "clk s2 \<noteq> 0"
      by simp
    with t2 ls ls1 show ?thesis
      by blast
  qed
qed

lemma ticks_mid_bit:
  "clk s \<noteq> 0 \<Longrightarrow> ticks conv n s p = Some (ls, sf, pf) \<Longrightarrow> 2 * k + 1 < length (p # ls) \<Longrightarrow>
   (p # ls) ! (2 * k + 1) = (\<not> (p # ls) ! (2 * k))"
proof (induction n arbitrary: s p ls k rule: induct_nat_012)
  case 0
  then show ?case
    by simp
next
  case 1
  then show ?case
    by (auto simp add: ISR_clock_edge drive_def split: if_splits)
next
  case (ge2 n)
  from ticks_two [OF ge2.prems(1,2)] consider "ls = []" | "ls = [\<not> p]"
    | s2 q ls2 where "clk s2 \<noteq> 0" "ticks conv n s2 q = Some (ls2, sf, pf)"
        "ls = (\<not> p) # q # ls2"
    by blast
  then show ?case
  proof cases
    case 1
    with ge2.prems(3) show ?thesis
      by simp
  next
    case 2
    with ge2.prems(3) show ?thesis
      by simp
  next
    case 3
    show ?thesis
    proof (cases k)
      case 0
      with 3 show ?thesis
        by simp
    next
      case (Suc k')
      with ge2.prems(3) 3 have "2 * k' + 1 < length (q # ls2)"
        by simp
      from ge2.IH(1) [OF 3(1,2) this] 3(3) Suc show ?thesis
        by simp
    qed
  qed
qed

section \<open>The previous bit across packets\<close>

lemma send_keeps_prev:
  "send_encoded_data s d n = Some (s', r) \<Longrightarrow> prev s' = prev s \<and> clk s' = clk s"
  by (auto simp add: send_encoded_data_def split: if_splits option.splits)

lemma ieee_last_bit_reached:
  "first_packet ENCODING_IEEE False [0x00] 1 29 =
     Some ([False, False, True, False, True, False, True, False, True, False, True,
            False, True, False, True, False, True, False, True, False, True, False,
            True, False, True, False, True, False, True], ieee_last_bit, True)"
  by code_simp

lemma after_first_packet_reached:
  "first_packet ENCODING_G_E_THOMAS False [0x41] 1 30 =
     Some ([True, True, False, False, True, False, True, False, True, False, True,
            False, True, True, False, False, True, False, True, False, True, False,
            True, False, True, False, True, False, True, False], after_first_packet, False)"
  by code_simp

text \<open>
  C10. \<^verbatim>\<open>prev\<close> holds the seed of the convention at reset and is never set to it again.
  The run of the handler that ends a packet stores the last bit of that packet in \<^verbatim>\<open>prev\<close>
  like any other data edge; the next call of \<^verbatim>\<open>send_encoded_data\<close>, the re-enabling of the
  timer and the first clock edge of the next packet leave it alone. So the first data edge
  of the next packet writes \<^verbatim>\<open>OUTTGL\<close> if and only if its bit equals the last bit of the
  packet before.
\<close>

theorem prev_carried_over:
  assumes "clk s = 0" and "bit_index s = 0"
    and "transmit_buffer_length s \<le> transmit_buffer_index s + 1"
    and "TCB0_INT_vect conv s = Some (ws1, s1)"
    and "send_encoded_data s1 d n = Some (s2, r)"
    and "TCB0_INT_vect conv (s2\<lparr>TCB_ENABLE := True\<rparr>) = Some (ws2, s3)"
    and "TCB0_INT_vect conv s3 = Some (ws3, s4)"
  shows "prev (reset_state conv) = prev_seed conv \<and>
         sending_in_progress s1 = 0 \<and> prev s1 = next_bit_of s \<and>
         r = 1 \<and> prev s2 = next_bit_of s \<and>
         clk s3 = 0 \<and> prev s3 = next_bit_of s \<and>
         (OUTTGL \<in> set ws3 \<longleftrightarrow> next_bit_of s3 = next_bit_of s)"
proof -
  from assms(1,4) have inr: "unat (transmit_buffer_index s) < length (transmit_buffer s)"
    by (auto simp add: TCB0_INT_vect_def split: if_splits)
  from ISR_data_edge_last [OF assms(1,2,3) inr, of conv] assms(4)
  have s1: "sending_in_progress s1 = 0" "prev s1 = next_bit_of s" "clk s1 = 1"
    by auto
  from assms(5) s1(1) have r: "r = 1"
    by (auto simp add: send_encoded_data_def split: option.splits)
  from send_keeps_prev [OF assms(5)] s1 have s2: "prev s2 = next_bit_of s" "clk s2 = 1"
    by simp_all
  then have "clk (s2\<lparr>TCB_ENABLE := True\<rparr>) \<noteq> 0"
    by simp
  from ISR_clock_edge [OF this, of conv] assms(6) s2
  have s3: "clk s3 = 0" "prev s3 = next_bit_of s"
    by auto
  from s3(1) assms(7) have
    "unat (transmit_buffer_index s3) < length (transmit_buffer s3) \<and> unat (bit_index s3) < 15"
    by (auto simp add: TCB0_INT_vect_def split: if_splits)
  with ISR_data_edge [OF s3(1), of conv] assms(7) s3(2)
  have "OUTTGL \<in> set ws3 \<longleftrightarrow> next_bit_of s3 = next_bit_of s"
    by auto
  with s1 r s2 s3 show ?thesis
    by (simp add: reset_state_def)
qed

theorem prev_carried_over_witness:
  "clk ieee_last_bit = 0 \<and> bit_index ieee_last_bit = 0 \<and>
   transmit_buffer_length ieee_last_bit \<le> transmit_buffer_index ieee_last_bit + 1 \<and>
   TCB0_INT_vect ENCODING_IEEE ieee_last_bit =
     Some ([OUTTGL, OUTSET],
           ieee_last_bit\<lparr>bit_index := 6, transmit_buffer_index := 0, TCB_ENABLE := False,
                          sending_in_progress := 0, clk := 1\<rparr>) \<and>
   send_encoded_data
       (ieee_last_bit\<lparr>bit_index := 6, transmit_buffer_index := 0, TCB_ENABLE := False,
                      sending_in_progress := 0, clk := 1\<rparr>) [0xFF] 1 =
     Some (ieee_last_bit\<lparr>transmit_buffer := 0xFF # replicate 254 0, bit_index := 6,
                          transmit_buffer_index := 0, TCB_ENABLE := False, clk := 1\<rparr>, 1) \<and>
   TCB0_INT_vect ENCODING_IEEE
       (ieee_last_bit\<lparr>transmit_buffer := 0xFF # replicate 254 0, bit_index := 6,
                      transmit_buffer_index := 0, TCB_ENABLE := False, clk := 1\<rparr>
          \<lparr>TCB_ENABLE := True\<rparr>) =
     Some ([OUTTGL],
           ieee_last_bit\<lparr>transmit_buffer := 0xFF # replicate 254 0, bit_index := 6,
                          transmit_buffer_index := 0\<rparr>) \<and>
   TCB0_INT_vect ENCODING_IEEE
       (ieee_last_bit\<lparr>transmit_buffer := 0xFF # replicate 254 0, bit_index := 6,
                      transmit_buffer_index := 0\<rparr>) =
     Some ([],
           ieee_last_bit\<lparr>transmit_buffer := 0xFF # replicate 254 0, bit_index := 5,
                          transmit_buffer_index := 0, clk := 1, prev := 1\<rparr>) \<and>
   prev (reset_state ENCODING_IEEE) = prev_seed ENCODING_IEEE \<and>
   prev_seed ENCODING_IEEE = 1 \<and>
   prev (ieee_last_bit\<lparr>transmit_buffer := 0xFF # replicate 254 0, bit_index := 6,
                        transmit_buffer_index := 0\<rparr>) = next_bit_of ieee_last_bit \<and>
   next_bit_of ieee_last_bit = 0 \<and>
   (OUTTGL \<in> set ([] :: port_write list) \<longleftrightarrow>
      next_bit_of (ieee_last_bit\<lparr>transmit_buffer := 0xFF # replicate 254 0, bit_index := 6,
                                  transmit_buffer_index := 0\<rparr>) = next_bit_of ieee_last_bit)"
proof -
  let ?s1 = "ieee_last_bit\<lparr>bit_index := 6, transmit_buffer_index := 0, TCB_ENABLE := False,
                          sending_in_progress := 0, clk := 1\<rparr>"
  let ?s2 = "ieee_last_bit\<lparr>transmit_buffer := 0xFF # replicate 254 0, bit_index := 6,
                          transmit_buffer_index := 0, TCB_ENABLE := False, clk := 1\<rparr>"
  let ?s3 = "ieee_last_bit\<lparr>transmit_buffer := 0xFF # replicate 254 0, bit_index := 6,
                          transmit_buffer_index := 0\<rparr>"
  let ?s4 = "ieee_last_bit\<lparr>transmit_buffer := 0xFF # replicate 254 0, bit_index := 5,
                          transmit_buffer_index := 0, clk := 1, prev := 1\<rparr>"
  have h1: "clk ieee_last_bit = 0" and h2: "bit_index ieee_last_bit = 0"
    and h3: "transmit_buffer_length ieee_last_bit \<le> transmit_buffer_index ieee_last_bit + 1"
    by (simp_all add: ieee_last_bit_def)
  have h4: "TCB0_INT_vect ENCODING_IEEE ieee_last_bit = Some ([OUTTGL, OUTSET], ?s1)"
    by (simp add: TCB0_INT_vect_def ieee_last_bit_def next_bit_of_def rest_write_def)
  have h5: "send_encoded_data ?s1 [0xFF] 1 = Some (?s2, 1)"
    by (simp add: send_payload_at_index_0 ieee_last_bit_def)
  have h6: "TCB0_INT_vect ENCODING_IEEE (?s2\<lparr>TCB_ENABLE := True\<rparr>) = Some ([OUTTGL], ?s3)"
    by (simp add: TCB0_INT_vect_def ieee_last_bit_def)
  have h7: "TCB0_INT_vect ENCODING_IEEE ?s3 = Some ([], ?s4)"
    by (simp add: TCB0_INT_vect_def ieee_last_bit_def next_bit_of_def)
  have h8: "next_bit_of ieee_last_bit = 0" and h9: "prev_seed ENCODING_IEEE = 1"
    by (simp_all add: ieee_last_bit_def next_bit_of_def prev_seed_def)
  from prev_carried_over [OF h1 h2 h3 h4 h5 h6 h7] h1 h2 h3 h4 h5 h6 h7 h8 h9 show ?thesis
    by simp
qed


section \<open>The shape of a packet\<close>

text \<open>
  What the handler puts on the line for one packet, in either build, from the state in
  which a packet starts (clock edge next, byte index 0, bit index 6) with the pin at the
  level that goes with \<^verbatim>\<open>prev\<close>: the starting level and its inverse, then for each of the
  queued bits but the first and the last the two levels of its G. E. Thomas code, then the
  rest level. The first queued bit is never read and the last one is read but replaced by
  the rest level, with no clock edge behind it.
\<close>

lemma length_packet_bits: "length (packet_bits bs) = 8 * length bs"
  by (induction bs) (simp_all add: packet_bits_def bits_msb_first_def)

lemma bits_msb_first_nth: "j \<le> 7 \<Longrightarrow> bits_msb_first w ! (7 - j) = bit w j"
proof -
  assume "j \<le> 7"
  then have "j \<in> {0, 1, 2, 3, 4, 5, 6, 7}"
    by auto
  then show ?thesis
    by (auto simp add: bits_msb_first_def)
qed

lemma packet_bits_nth:
  "i < length bs \<Longrightarrow> j \<le> 7 \<Longrightarrow> packet_bits bs ! (8 * i + (7 - j)) = bit (bs ! i) j"
proof (induction bs arbitrary: i)
  case Nil
  then show ?case by simp
next
  case (Cons b bs)
  have app: "packet_bits (b # bs) = bits_msb_first b @ packet_bits bs"
    by (simp add: packet_bits_def)
  have len: "length (bits_msb_first b) = 8"
    by (simp add: bits_msb_first_def)
  show ?case
  proof (cases i)
    case 0
    have "7 - j < (8 :: nat)"
      by simp
    with 0 Cons.prems(2) show ?thesis
      by (simp add: app nth_append len bits_msb_first_nth del: One_nat_def)
  next
    case (Suc i')
    with Cons.prems have "i' < length bs"
      by simp
    from Cons.IH [OF this Cons.prems(2)] Suc show ?thesis
      by (simp add: app nth_append len)
  qed
qed

lemma mask_test_is_bit:
  "0 < (uint (w :: uint8_t) AND push_bit n (1 :: int)) \<longleftrightarrow> bit w n"
proof -
  have "0 \<le> uint w AND push_bit n 1"
    by simp
  moreover have "uint w AND push_bit n 1 = 0 \<longleftrightarrow> \<not> bit (uint w) n"
    by (simp add: and_exp_eq_0_iff_not_bit)
  moreover have "bit (uint w) n \<longleftrightarrow> bit w n"
    by (auto simp add: bit_uint_iff dest: bit_imp_le_length)
  ultimately show ?thesis
    by linarith
qed

lemma next_bit_of_bit:
  "next_bit_of s =
     (if bit (transmit_buffer s ! unat (transmit_buffer_index s)) (unat (bit_index s))
      then 1 else 0)"
  by (simp only: next_bit_of_def mask_test_is_bit)


text \<open>Two interrupts from a clock edge, when the bit read is not the last of the packet.\<close>

lemma unat_index_succ:
  assumes "unat (i :: uint8_t) < unat (l :: uint8_t)"
  shows "unat (i + 1) = unat i + 1"
proof -
  have "unat l < 256"
    using unsigned_less [of l] by simp
  with assms show ?thesis
    by (simp add: unat_word_ariths)
qed

lemma ticks_Suc_Suc:
  assumes "TCB_ENABLE s"
    and "TCB0_INT_vect conv (s\<lparr>TCB_CAPT := True\<rparr>) = Some (ws1, s1)"
    and "TCB_ENABLE s1"
    and "TCB0_INT_vect conv (s1\<lparr>TCB_CAPT := True\<rparr>) = Some (ws2, s2)"
  shows "ticks conv (Suc (Suc n)) s p =
           map_option (\<lambda>(ls, sf, pf). (drive ws1 p # drive ws2 (drive ws1 p) # ls, sf, pf))
             (ticks conv n s2 (drive ws2 (drive ws1 p)))"
  using assms by (simp split: option.splits)

lemma drive_toggle: "drive [OUTTGL] p = (\<not> p)"
  by (simp add: drive_def)

lemma two_ticks_inner:
  assumes "clk s \<noteq> 0" and "TCB_ENABLE s"
    and "unat (transmit_buffer_index s) < unat (transmit_buffer_length s)"
    and "unat (transmit_buffer_length s) \<le> length (transmit_buffer s)"
    and "unat (bit_index s) \<le> 7"
    and "prev s = 0 \<or> prev s = 1"
    and "p = (prev s = 1)"
    and "bit_position s + 1 < 8 * unat (transmit_buffer_length s)"
  shows "\<exists>s2. ticks conv (Suc (Suc n)) s p =
            map_option (\<lambda>(ls, sf, pf). ((\<not> p) # (next_bit_of s = 1) # ls, sf, pf))
              (ticks conv n s2 (next_bit_of s = 1)) \<and>
          clk s2 \<noteq> 0 \<and> TCB_ENABLE s2 \<and>
          transmit_buffer s2 = transmit_buffer s \<and>
          transmit_buffer_length s2 = transmit_buffer_length s \<and>
          unat (transmit_buffer_index s2) < unat (transmit_buffer_length s2) \<and>
          unat (bit_index s2) \<le> 7 \<and>
          prev s2 = next_bit_of s \<and>
          bit_position s2 = bit_position s + 1"
proof -
  let ?s1 = "s\<lparr>TCB_CAPT := True, clk := 0, TCB_CAPT := False\<rparr>"
  let ?t = "?s1\<lparr>TCB_CAPT := True\<rparr>"
  let ?c = "next_bit_of s"
  have c01: "?c = 0 \<or> ?c = 1"
    by (simp add: next_bit_of_def)
  have nb: "next_bit_of ?t = ?c"
    by (simp add: next_bit_of_def)
  from assms(1) have isr1: "TCB0_INT_vect conv (s\<lparr>TCB_CAPT := True\<rparr>) = Some ([OUTTGL], ?s1)"
    by (simp add: ISR_clock_edge)
  have lvl: "drive (if ?c = prev s then [OUTTGL] else []) (\<not> p) = (?c = 1)"
    using c01 assms(6,7) by (auto simp add: drive_def)
  have inr: "unat (transmit_buffer_index ?t) < length (transmit_buffer ?t)"
    using assms(3,4) by simp
  have b15: "unat (bit_index ?t) < 15"
    using assms(5) by simp
  show ?thesis
  proof (cases "bit_index s = 0")
    case False
    then have dec: "unat (bit_index s - 1) = unat (bit_index s) - 1" and nz: "unat (bit_index s) \<noteq> 0"
      by (simp_all add: unat_minus_one unat_eq_zero)
    let ?s2 = "?t\<lparr>bit_index := bit_index s - 1, clk := 1, prev := ?c, TCB_CAPT := False\<rparr>"
    from False have "TCB0_INT_vect conv ?t = Some (if ?c = prev s then [OUTTGL] else [], ?s2)"
      using ISR_data_edge_bit [of ?t conv] inr b15 nb by simp
    then have "TCB0_INT_vect conv ?t = Some (if ?c = prev s then [OUTTGL] else [], ?s2)" .
    from ticks_Suc_Suc [OF assms(2) isr1 _ this, of n p] assms(2) lvl have
      "ticks conv (Suc (Suc n)) s p =
         map_option (\<lambda>(ls, sf, pf). ((\<not> p) # (?c = 1) # ls, sf, pf)) (ticks conv n ?s2 (?c = 1))"
      by (simp add: drive_toggle)
    moreover have "bit_position ?s2 = bit_position s + 1"
      using dec nz assms(5) by (simp add: bit_position_def)
    ultimately show ?thesis
      using assms(2,3,5) dec by (intro exI [of _ ?s2]) simp
  next
    case True
    with assms(8) have "unat (transmit_buffer_index s) + 1 < unat (transmit_buffer_length s)"
      by (simp add: bit_position_def)
    moreover have su: "unat (transmit_buffer_index s + 1) = unat (transmit_buffer_index s) + 1"
      using assms(3) by (rule unat_index_succ)
    ultimately have lt: "transmit_buffer_index s + 1 < transmit_buffer_length s"
      by (simp add: word_less_nat_alt)
    let ?s2 = "?t\<lparr>bit_index := 7, transmit_buffer_index := transmit_buffer_index s + 1,
                   clk := 1, prev := ?c, TCB_CAPT := False\<rparr>"
    from True lt have "TCB0_INT_vect conv ?t = Some (if ?c = prev s then [OUTTGL] else [], ?s2)"
      using ISR_data_edge_byte [of ?t conv] inr nb by simp
    then have "TCB0_INT_vect conv ?t = Some (if ?c = prev s then [OUTTGL] else [], ?s2)" .
    from ticks_Suc_Suc [OF assms(2) isr1 _ this, of n p] assms(2) lvl have
      "ticks conv (Suc (Suc n)) s p =
         map_option (\<lambda>(ls, sf, pf). ((\<not> p) # (?c = 1) # ls, sf, pf)) (ticks conv n ?s2 (?c = 1))"
      by (simp add: drive_toggle)
    moreover have "bit_position ?s2 = bit_position s + 1"
      using True su by (simp add: bit_position_def)
    ultimately show ?thesis
      using assms(2) lt su by (intro exI [of _ ?s2]) (simp add: word_less_nat_alt)
  qed
qed


lemma ticks_timer_off: "\<not> TCB_ENABLE s \<Longrightarrow> ticks conv n s p = Some ([], s, p)"
  by (cases n) simp_all

lemma two_ticks_last:
  assumes "clk s \<noteq> 0" and "TCB_ENABLE s"
    and "unat (transmit_buffer_index s) < unat (transmit_buffer_length s)"
    and "unat (transmit_buffer_length s) \<le> length (transmit_buffer s)"
    and "unat (bit_index s) \<le> 7"
    and "bit_position s + 1 = 8 * unat (transmit_buffer_length s)"
  shows "\<exists>sf. ticks conv (Suc (Suc n)) s p = Some ([\<not> p, rest_level conv], sf, rest_level conv) \<and>
          \<not> TCB_ENABLE sf \<and> sending_in_progress sf = 0 \<and>
          transmit_buffer_index sf = 0 \<and> bit_index sf = 6 \<and> clk sf = 1"
proof -
  let ?s1 = "s\<lparr>TCB_CAPT := True, clk := 0, TCB_CAPT := False\<rparr>"
  let ?t = "?s1\<lparr>TCB_CAPT := True\<rparr>"
  let ?c = "next_bit_of s"
  let ?sf = "?t\<lparr>bit_index := 6, transmit_buffer_index := 0, TCB_ENABLE := False,
                 sending_in_progress := 0, clk := 1, prev := ?c, TCB_CAPT := False\<rparr>"
  have nb: "next_bit_of ?t = ?c"
    by (simp add: next_bit_of_def)
  from assms(3,5,6) have "unat (bit_index s) = 0"
    and last: "unat (transmit_buffer_index s) + 1 = unat (transmit_buffer_length s)"
    by (simp_all add: bit_position_def)
  then have b0: "bit_index s = 0"
    by (simp add: unat_eq_zero)
  have "unat (transmit_buffer_index s + 1) = unat (transmit_buffer_index s) + 1"
    using assms(3) by (rule unat_index_succ)
  with last have le: "transmit_buffer_length s \<le> transmit_buffer_index s + 1"
    by (simp add: word_le_nat_alt)
  from assms(1) have isr1: "TCB0_INT_vect conv (s\<lparr>TCB_CAPT := True\<rparr>) = Some ([OUTTGL], ?s1)"
    by (simp add: ISR_clock_edge)
  have inr: "unat (transmit_buffer_index ?t) < length (transmit_buffer ?t)"
    using assms(3,4) by simp
  from b0 le have
    "TCB0_INT_vect conv ?t =
       Some ((if ?c = prev s then [OUTTGL] else []) @ [rest_write conv], ?sf)"
    using ISR_data_edge_last [of ?t conv] inr nb by simp
  from ticks_Suc_Suc [OF assms(2) isr1 _ this, of n p] assms(2)
  have "ticks conv (Suc (Suc n)) s p = Some ([\<not> p, rest_level conv], ?sf, rest_level conv)"
    by (simp add: drive_toggle drive_rest_write ticks_timer_off)
  then show ?thesis
    by (intro exI [of _ ?sf]) simp
qed

lemma queued_bit_read:
  assumes "unat (transmit_buffer_index s) < unat (transmit_buffer_length s)"
    and "unat (transmit_buffer_length s) \<le> length (transmit_buffer s)"
    and "unat (bit_index s) \<le> 7"
  shows "queued_bits s ! bit_position s = (next_bit_of s = 1)"
proof -
  let ?bs = "take (unat (transmit_buffer_length s)) (transmit_buffer s)"
  from assms(1,2) have "unat (transmit_buffer_index s) < length ?bs"
    by simp
  from packet_bits_nth [OF this assms(3)] assms(1) show ?thesis
    by (simp add: queued_bits_def bit_position_def next_bit_of_bit)
qed

lemma packet_levels:
  assumes "clk s \<noteq> 0" and "TCB_ENABLE s"
    and "unat (transmit_buffer_index s) < unat (transmit_buffer_length s)"
    and "unat (transmit_buffer_length s) \<le> length (transmit_buffer s)"
    and "unat (bit_index s) \<le> 7"
    and "prev s = 0 \<or> prev s = 1"
    and "p = (prev s = 1)"
    and "r = 8 * unat (transmit_buffer_length s) - bit_position s"
    and "2 * r \<le> fuel"
  shows "\<exists>sf. ticks conv fuel s p =
            Some ((\<not> p) #
                  thomas_levels (take (r - 1) (drop (bit_position s) (queued_bits s))) @
                  [rest_level conv], sf, rest_level conv) \<and>
          \<not> TCB_ENABLE sf \<and> sending_in_progress sf = 0 \<and>
          transmit_buffer_index sf = 0 \<and> bit_index sf = 6 \<and> clk sf = 1"
  using assms
proof (induction r arbitrary: s p fuel)
  case 0
  then have "bit_position s < 8 * unat (transmit_buffer_length s)"
    by (simp add: bit_position_def)
  with "0.prems"(8) show ?case
    by simp
next
  case (Suc r)
  from Suc.prems(8,9) obtain n where fuel: "fuel = Suc (Suc n)"
    by (cases fuel; cases "fuel - 1") simp_all
  have pos: "bit_position s < 8 * unat (transmit_buffer_length s)"
    using Suc.prems(3) by (simp add: bit_position_def)
  have len: "length (queued_bits s) = 8 * unat (transmit_buffer_length s)"
    using Suc.prems(4) by (simp add: queued_bits_def length_packet_bits)
  show ?case
  proof (cases "r = 0")
    case True
    with Suc.prems(8) pos have "bit_position s + 1 = 8 * unat (transmit_buffer_length s)"
      by simp
    from two_ticks_last [OF Suc.prems(1-5) this, of conv n p] True fuel show ?thesis
      by simp
  next
    case False
    with Suc.prems(8) have inner: "bit_position s + 1 < 8 * unat (transmit_buffer_length s)"
      by simp
    from two_ticks_inner [OF Suc.prems(1-7) inner, of conv n] obtain s2 where
      t: "ticks conv (Suc (Suc n)) s p =
            map_option (\<lambda>(ls, sf, pf). ((\<not> p) # (next_bit_of s = 1) # ls, sf, pf))
              (ticks conv n s2 (next_bit_of s = 1))"
      and s2: "clk s2 \<noteq> 0" "TCB_ENABLE s2"
        "unat (transmit_buffer_index s2) < unat (transmit_buffer_length s2)"
        "unat (bit_index s2) \<le> 7"
      and same: "transmit_buffer s2 = transmit_buffer s"
        "transmit_buffer_length s2 = transmit_buffer_length s"
      and pr: "prev s2 = next_bit_of s"
      and p2: "bit_position s2 = bit_position s + 1"
      by blast
    have c01: "prev s2 = 0 \<or> prev s2 = 1"
      using pr by (simp add: next_bit_of_def)
    have sync: "(next_bit_of s = 1) = (prev s2 = 1)"
      using pr by simp
    have r: "r = 8 * unat (transmit_buffer_length s2) - bit_position s2"
      using Suc.prems(8) same p2 by simp
    have fl: "2 * r \<le> n"
      using Suc.prems(9) fuel by simp
    have l2: "unat (transmit_buffer_length s2) \<le> length (transmit_buffer s2)"
      using Suc.prems(4) same by simp
    from Suc.IH [OF s2(1,2,3) l2 s2(4) c01 sync r fl] obtain sf where
      t2: "ticks conv n s2 (next_bit_of s = 1) =
             Some ((\<not> (next_bit_of s = 1)) #
                   thomas_levels (take (r - 1) (drop (bit_position s2) (queued_bits s2))) @
                   [rest_level conv], sf, rest_level conv)"
      and sf: "\<not> TCB_ENABLE sf" "sending_in_progress sf = 0"
        "transmit_buffer_index sf = 0" "bit_index sf = 6" "clk sf = 1"
      by blast
    have q: "queued_bits s2 = queued_bits s"
      using same by (simp add: queued_bits_def)
    have "drop (bit_position s) (queued_bits s) =
            queued_bits s ! bit_position s # drop (bit_position s + 1) (queued_bits s)"
      using pos len by (simp add: Cons_nth_drop_Suc)
    then have "take r (drop (bit_position s) (queued_bits s)) =
        (next_bit_of s = 1) # take (r - 1) (drop (bit_position s + 1) (queued_bits s))"
      using False queued_bit_read [OF Suc.prems(3,4,5)] by (cases r) simp_all
    with t t2 q p2 fuel sf show ?thesis
      by simp
  qed
qed


lemma decode_thomas_levels:
  "decode_wave rule (thomas_levels bs @ [x]) =
     map (\<lambda>b. Some (case rule of ENCODING_G_E_THOMAS \<Rightarrow> b | ENCODING_IEEE \<Rightarrow> \<not> b)) bs"
  by (induction bs) (auto simp add: decode_period_def split: encoding.splits)

lemma packet_read_back:
  assumes "clk s \<noteq> 0" and "TCB_ENABLE s"
    and "transmit_buffer_index s = 0" and "bit_index s = 6"
    and "0 < unat (transmit_buffer_length s)"
    and "unat (transmit_buffer_length s) \<le> length (transmit_buffer s)"
    and "prev s = 0 \<or> prev s = 1"
    and "p = (prev s = 1)"
    and "16 * unat (transmit_buffer_length s) - 2 \<le> fuel"
  shows "\<exists>w. waveform conv fuel s p = Some w \<and>
           length w = 16 * unat (transmit_buffer_length s) - 1 \<and>
           decode_wave rule w =
             map (\<lambda>b. Some (case rule of ENCODING_G_E_THOMAS \<Rightarrow> b | ENCODING_IEEE \<Rightarrow> \<not> b))
               ((prev s = 1) #
                take (8 * unat (transmit_buffer_length s) - 2) (drop 1 (queued_bits s)))"
proof -
  let ?L = "unat (transmit_buffer_length s)"
  let ?bits = "take (8 * ?L - 2) (drop 1 (queued_bits s))"
  have pos: "bit_position s = 1"
    using assms(3,4) by (simp add: bit_position_def)
  have idx: "unat (transmit_buffer_index s) < ?L" and b7: "unat (bit_index s) \<le> 7"
    using assms(3,4,5) by simp_all
  have r: "8 * ?L - 1 = 8 * ?L - bit_position s"
    using pos by simp
  have fl: "2 * (8 * ?L - 1) \<le> fuel"
    using assms(9) by simp
  have e: "8 * ?L - 1 - 1 = 8 * ?L - 2"
    by simp
  from packet_levels [OF assms(1,2) idx assms(6) b7 assms(7,8) r fl, of conv]
  obtain sf where
    "ticks conv fuel s p =
       Some ((\<not> p) #
             thomas_levels (take (8 * ?L - 1 - 1) (drop (bit_position s) (queued_bits s))) @
             [rest_level conv], sf, rest_level conv)"
    by blast
  then have "ticks conv fuel s p =
       Some ((\<not> p) # thomas_levels ?bits @ [rest_level conv], sf, rest_level conv)"
    unfolding e pos .
  then have w: "waveform conv fuel s p =
      Some (thomas_levels ((prev s = 1) # ?bits) @ [rest_level conv])"
    using assms(8) by (simp add: waveform_def)
  have "length (queued_bits s) = 8 * ?L"
    using assms(6) by (simp add: queued_bits_def length_packet_bits)
  then have "length ?bits = 8 * ?L - 2"
    by simp
  moreover have "length (thomas_levels bs) = 2 * length bs" for bs
    by (induction bs) simp_all
  ultimately have "length (thomas_levels ((prev s = 1) # ?bits) @ [rest_level conv]) = 16 * ?L - 1"
    using assms(5) by simp
  with w decode_thomas_levels [of rule "(prev s = 1) # ?bits" "rest_level conv"]
  show ?thesis
    by simp
qed

lemma packet_waveform:
  assumes "clk s \<noteq> 0" and "TCB_ENABLE s"
    and "transmit_buffer_index s = 0" and "bit_index s = 6"
    and "0 < unat (transmit_buffer_length s)"
    and "unat (transmit_buffer_length s) \<le> length (transmit_buffer s)"
    and "prev s = 0 \<or> prev s = 1"
    and "p = (prev s = 1)"
    and "16 * unat (transmit_buffer_length s) - 2 \<le> fuel"
  shows "waveform conv fuel s p =
           Some (p # (\<not> p) #
                 thomas_levels
                   (take (8 * unat (transmit_buffer_length s) - 2)
                      (drop 1 (packet_bits
                         (take (unat (transmit_buffer_length s)) (transmit_buffer s))))) @
                 [rest_level conv])"
proof -
  let ?L = "unat (transmit_buffer_length s)"
  have pos: "bit_position s = 1"
    using assms(3,4) by (simp add: bit_position_def)
  have idx: "unat (transmit_buffer_index s) < ?L" and b7: "unat (bit_index s) \<le> 7"
    using assms(3,4,5) by simp_all
  have r: "8 * ?L - 1 = 8 * ?L - bit_position s"
    using pos by simp
  have fl: "2 * (8 * ?L - 1) \<le> fuel"
    using assms(9) by simp
  have e: "8 * ?L - 1 - 1 = 8 * ?L - 2"
    by simp
  from packet_levels [OF assms(1,2) idx assms(6) b7 assms(7,8) r fl, of conv]
  obtain sf where
    "ticks conv fuel s p =
       Some ((\<not> p) #
             thomas_levels (take (8 * ?L - 1 - 1) (drop (bit_position s) (queued_bits s))) @
             [rest_level conv], sf, rest_level conv)"
    by blast
  then show ?thesis
    unfolding e pos by (simp add: waveform_def queued_bits_def)
qed

lemma thomas_packet_start_reached:
  "send_encoded_data (fst (main_init ENCODING_G_E_THOMAS False)) [0xA5] 1 =
     Some (thomas_packet_start, 1)"
  "ticks ENCODING_G_E_THOMAS 1 thomas_packet_start False =
     Some ([True], thomas_packet_start\<lparr>clk := 0\<rparr>, True)"
  "map_option (\<lambda>(ls, sf, pf). (sf, pf)) (ticks ENCODING_G_E_THOMAS 13 thomas_packet_start False) =
     Some (thomas_packet_start\<lparr>clk := 0, bit_index := 0\<rparr>, True)"
  "map_option (\<lambda>(ls, sf, pf). (sf, pf)) (ticks ENCODING_G_E_THOMAS 29 thomas_packet_start False) =
     Some (thomas_packet_start\<lparr>clk := 0, bit_index := 0, transmit_buffer_index := 1\<rparr>, True)"
  by code_simp+

text \<open>
  C2. A run of the handler at a clock edge (\<^verbatim>\<open>clk\<close> non-zero) writes \<^verbatim>\<open>OUTTGL\<close> once,
  clears \<^verbatim>\<open>clk\<close> and, apart from acknowledging the interrupt flag, changes nothing else.
  A run at a data edge reads bit \<^verbatim>\<open>bit_index\<close> of
  \<^verbatim>\<open>transmit_buffer[transmit_buffer_index]\<close>, writes \<^verbatim>\<open>OUTTGL\<close> if and only if that bit equals
  \<^verbatim>\<open>prev\<close>, stores the bit in \<^verbatim>\<open>prev\<close> and sets \<^verbatim>\<open>clk\<close> again; the writes and the state it
  leaves are given in full for its three paths (inside a byte, on to the next byte, end
  of the packet, where the write that parks the pin follows). Hence in the waveform of
  any number of interrupts that starts at a clock edge, the two levels of every bit period
  differ: each has its transition at the centre. The waveform is defined from every
  consistent state, and for a whole packet it is the starting level and its inverse, the
  two levels of each queued bit from the second to the last but one, and the rest level:
  a packet ends on a data edge, so its waveform ends with the first half of a bit period.
\<close>

theorem encoder_step_edges:
  "(clk s \<noteq> 0 \<longrightarrow>
      TCB0_INT_vect conv s = Some ([OUTTGL], s\<lparr>clk := 0, TCB_CAPT := False\<rparr>)) \<and>
   (clk t = 0 \<and> bit_index t \<noteq> 0 \<and> unat (bit_index t) < 15 \<and>
    unat (transmit_buffer_index t) < length (transmit_buffer t) \<longrightarrow>
      TCB0_INT_vect conv t =
        Some (if (if bit (transmit_buffer t ! unat (transmit_buffer_index t))
                       (unat (bit_index t)) then 1 else 0) = prev t
              then [OUTTGL] else [],
              t\<lparr>bit_index := bit_index t - 1, clk := 1,
                prev := (if bit (transmit_buffer t ! unat (transmit_buffer_index t))
                              (unat (bit_index t)) then 1 else 0),
                TCB_CAPT := False\<rparr>)) \<and>
   (clk u = 0 \<and> bit_index u = 0 \<and>
    transmit_buffer_index u + 1 < transmit_buffer_length u \<and>
    unat (transmit_buffer_index u) < length (transmit_buffer u) \<longrightarrow>
      TCB0_INT_vect conv u =
        Some (if (if bit (transmit_buffer u ! unat (transmit_buffer_index u)) 0 then 1 else 0) = prev u
              then [OUTTGL] else [],
              u\<lparr>bit_index := 7, transmit_buffer_index := transmit_buffer_index u + 1,
                clk := 1,
                prev := (if bit (transmit_buffer u ! unat (transmit_buffer_index u)) 0
                         then 1 else 0),
                TCB_CAPT := False\<rparr>)) \<and>
   (clk v = 0 \<and> bit_index v = 0 \<and>
    transmit_buffer_length v \<le> transmit_buffer_index v + 1 \<and>
    unat (transmit_buffer_index v) < length (transmit_buffer v) \<longrightarrow>
      TCB0_INT_vect conv v =
        Some ((if (if bit (transmit_buffer v ! unat (transmit_buffer_index v)) 0 then 1 else 0) = prev v
               then [OUTTGL] else []) @ [rest_write conv],
              v\<lparr>bit_index := 6, transmit_buffer_index := 0, TCB_ENABLE := False,
                sending_in_progress := 0, clk := 1,
                prev := (if bit (transmit_buffer v ! unat (transmit_buffer_index v)) 0
                         then 1 else 0),
                TCB_CAPT := False\<rparr>)) \<and>
   (clk x = 0 \<and> TCB0_INT_vect conv x = Some (ws, x') \<longrightarrow>
      (OUTTGL \<in> set ws \<longleftrightarrow>
         (if bit (transmit_buffer x ! unat (transmit_buffer_index x))
                         (unat (bit_index x)) then 1 else 0) = prev x) \<and>
      clk x' = 1) \<and>
   (consistent y \<longrightarrow> (\<exists>w. waveform conv n y p = Some w)) \<and>
   (clk y \<noteq> 0 \<and> waveform conv n y p = Some w \<and> 2 * k + 1 < length w \<longrightarrow>
      w ! (2 * k + 1) = (\<not> w ! (2 * k))) \<and>
   (clk z \<noteq> 0 \<and> TCB_ENABLE z \<and> transmit_buffer_index z = 0 \<and> bit_index z = 6 \<and>
    0 < unat (transmit_buffer_length z) \<and>
    unat (transmit_buffer_length z) \<le> length (transmit_buffer z) \<and>
    (prev z = 0 \<or> prev z = 1) \<and> q = (prev z = 1) \<and>
    16 * unat (transmit_buffer_length z) - 2 \<le> fuel \<longrightarrow>
      waveform conv fuel z q =
        Some (q # (\<not> q) #
              thomas_levels
                (take (8 * unat (transmit_buffer_length z) - 2)
                   (drop 1 (packet_bits
                      (take (unat (transmit_buffer_length z)) (transmit_buffer z))))) @
              [rest_level conv]))"
proof -
  have nb: "next_bit_of m =
      (if bit (transmit_buffer m ! unat (transmit_buffer_index m)) (unat (bit_index m))
       then 1 else 0)" for m
    by (simp only: next_bit_of_def mask_test_is_bit)
  show ?thesis
  proof (intro conjI impI)
  assume "clk s \<noteq> 0"
  then show "TCB0_INT_vect conv s = Some ([OUTTGL], s\<lparr>clk := 0, TCB_CAPT := False\<rparr>)"
    by (rule ISR_clock_edge)
next
  assume "clk t = 0 \<and> bit_index t \<noteq> 0 \<and> unat (bit_index t) < 15 \<and>
    unat (transmit_buffer_index t) < length (transmit_buffer t)"
  then show "TCB0_INT_vect conv t =
        Some (if (if bit (transmit_buffer t ! unat (transmit_buffer_index t))
                       (unat (bit_index t)) then 1 else 0) = prev t
              then [OUTTGL] else [],
              t\<lparr>bit_index := bit_index t - 1, clk := 1,
                prev := (if bit (transmit_buffer t ! unat (transmit_buffer_index t))
                              (unat (bit_index t)) then 1 else 0),
                TCB_CAPT := False\<rparr>)"
    using ISR_data_edge_bit [of t conv, unfolded nb] by simp
next
  assume a: "clk u = 0 \<and> bit_index u = 0 \<and>
    transmit_buffer_index u + 1 < transmit_buffer_length u \<and>
    unat (transmit_buffer_index u) < length (transmit_buffer u)"
  then show "TCB0_INT_vect conv u =
        Some (if (if bit (transmit_buffer u ! unat (transmit_buffer_index u)) 0 then 1 else 0) = prev u
              then [OUTTGL] else [],
              u\<lparr>bit_index := 7, transmit_buffer_index := transmit_buffer_index u + 1,
                clk := 1,
                prev := (if bit (transmit_buffer u ! unat (transmit_buffer_index u)) 0
                         then 1 else 0),
                TCB_CAPT := False\<rparr>)"
    using ISR_data_edge_byte [of u conv, unfolded nb] by simp
next
  assume a: "clk v = 0 \<and> bit_index v = 0 \<and>
    transmit_buffer_length v \<le> transmit_buffer_index v + 1 \<and>
    unat (transmit_buffer_index v) < length (transmit_buffer v)"
  then show "TCB0_INT_vect conv v =
        Some ((if (if bit (transmit_buffer v ! unat (transmit_buffer_index v)) 0 then 1 else 0) = prev v
               then [OUTTGL] else []) @ [rest_write conv],
              v\<lparr>bit_index := 6, transmit_buffer_index := 0, TCB_ENABLE := False,
                sending_in_progress := 0, clk := 1,
                prev := (if bit (transmit_buffer v ! unat (transmit_buffer_index v)) 0
                         then 1 else 0),
                TCB_CAPT := False\<rparr>)"
    using ISR_data_edge_last [of v conv, unfolded nb] by simp
next
  assume a: "clk x = 0 \<and> TCB0_INT_vect conv x = Some (ws, x')"
  then have "unat (transmit_buffer_index x) < length (transmit_buffer x)"
    and "unat (bit_index x) < 15"
    by (auto simp add: TCB0_INT_vect_def split: if_splits)
  with a ISR_data_edge [of x conv, unfolded nb]
  show "OUTTGL \<in> set ws \<longleftrightarrow>
         (if bit (transmit_buffer x ! unat (transmit_buffer_index x))
                         (unat (bit_index x)) then 1 else 0) = prev x"
    by auto
  from a ISR_data_edge_after [of x conv ws x'] show "clk x' = 1"
    by simp
next
  assume "consistent y"
  from ticks_defined [OF this, of conv n p] show "\<exists>w. waveform conv n y p = Some w"
    by (auto simp add: waveform_def)
next
  assume a: "clk y \<noteq> 0 \<and> waveform conv n y p = Some w \<and> 2 * k + 1 < length w"
  then obtain ls sf pf where "ticks conv n y p = Some (ls, sf, pf)" and "w = p # ls"
    by (auto simp add: waveform_def)
  with a ticks_mid_bit [of y conv n p ls sf pf k]
  show "w ! (2 * k + 1) = (\<not> w ! (2 * k))"
    by simp
next
  assume "clk z \<noteq> 0 \<and> TCB_ENABLE z \<and> transmit_buffer_index z = 0 \<and> bit_index z = 6 \<and>
    0 < unat (transmit_buffer_length z) \<and>
    unat (transmit_buffer_length z) \<le> length (transmit_buffer z) \<and>
    (prev z = 0 \<or> prev z = 1) \<and> q = (prev z = 1) \<and>
    16 * unat (transmit_buffer_length z) - 2 \<le> fuel"
  then show "waveform conv fuel z q =
        Some (q # (\<not> q) #
              thomas_levels
                (take (8 * unat (transmit_buffer_length z) - 2)
                   (drop 1 (packet_bits
                      (take (unat (transmit_buffer_length z)) (transmit_buffer z))))) @
              [rest_level conv])"
    using packet_waveform [of z q fuel conv] by blast
qed
qed

theorem encoder_step_edges_witness:
  "clk thomas_packet_start \<noteq> 0 \<and>
   TCB0_INT_vect ENCODING_G_E_THOMAS thomas_packet_start =
     Some ([OUTTGL], thomas_packet_start\<lparr>clk := 0\<rparr>) \<and>
   clk (thomas_packet_start\<lparr>clk := 0\<rparr>) = 0 \<and>
   bit_index (thomas_packet_start\<lparr>clk := 0\<rparr>) = 6 \<and>
   \<not> bit (0xA5 :: uint8_t) 6 \<and>
   TCB0_INT_vect ENCODING_G_E_THOMAS (thomas_packet_start\<lparr>clk := 0\<rparr>) =
     Some ([OUTTGL], thomas_packet_start\<lparr>bit_index := 5\<rparr>) \<and>
   bit (0xA5 :: uint8_t) 0 \<and>
   TCB0_INT_vect ENCODING_G_E_THOMAS (thomas_packet_start\<lparr>clk := 0, bit_index := 0\<rparr>) =
     Some ([], thomas_packet_start\<lparr>bit_index := 7, transmit_buffer_index := 1, prev := 1\<rparr>) \<and>
   TCB0_INT_vect ENCODING_G_E_THOMAS
       (thomas_packet_start\<lparr>clk := 0, bit_index := 0, transmit_buffer_index := 1\<rparr>) =
     Some ([OUTTGL, OUTCLR],
           thomas_packet_start\<lparr>TCB_ENABLE := False, sending_in_progress := 0\<rparr>) \<and>
   OUTTGL \<in> set [OUTTGL] \<and>
   consistent thomas_packet_start \<and>
   waveform ENCODING_G_E_THOMAS 100 thomas_packet_start False =
     Some [False, True, False, True, True, False, False, True, False, True, True,
        False, False, True, True, False, False, True, False, True, False, True,
        False, True, False, True, False, True, False, True, False] \<and>
   [False, True, False, True, True, False, False, True, False, True, True,
        False, False, True, True, False, False, True, False, True, False, True,
        False, True, False, True, False, True, False, True, False] ! (2 * 14 + 1) = (\<not> [False, True, False, True, True, False, False, True, False, True, True,
        False, False, True, True, False, False, True, False, True, False, True,
        False, True, False, True, False, True, False, True, False] ! (2 * 14)) \<and>
   waveform ENCODING_G_E_THOMAS 30 thomas_packet_start False =
     Some [False, True, False, True, True, False, False, True, False, True, True,
        False, False, True, True, False, False, True, False, True, False, True,
        False, True, False, True, False, True, False, True, False]"
proof -
  let ?s = "thomas_packet_start"
  let ?t = "thomas_packet_start\<lparr>clk := 0\<rparr>"
  let ?u = "thomas_packet_start\<lparr>clk := 0, bit_index := 0\<rparr>"
  let ?v = "thomas_packet_start\<lparr>clk := 0, bit_index := 0, transmit_buffer_index := 1\<rparr>"
  let ?w = "[False, True, False, True, True, False, False, True, False, True, True,
        False, False, True, True, False, False, True, False, True, False, True,
        False, True, False, True, False, True, False, True, False]"
  have s: "clk ?s \<noteq> 0"
    by (simp add: thomas_packet_start_def)
  have t: "clk ?t = 0 \<and> bit_index ?t \<noteq> 0 \<and> unat (bit_index ?t) < 15 \<and>
      unat (transmit_buffer_index ?t) < length (transmit_buffer ?t)"
    by (simp add: thomas_packet_start_def)
  have u: "clk ?u = 0 \<and> bit_index ?u = 0 \<and>
      transmit_buffer_index ?u + 1 < transmit_buffer_length ?u \<and>
      unat (transmit_buffer_index ?u) < length (transmit_buffer ?u)"
    by (simp add: thomas_packet_start_def)
  have v: "clk ?v = 0 \<and> bit_index ?v = 0 \<and>
      transmit_buffer_length ?v \<le> transmit_buffer_index ?v + 1 \<and>
      unat (transmit_buffer_index ?v) < length (transmit_buffer ?v)"
    by (simp add: thomas_packet_start_def)
  have x: "TCB0_INT_vect ENCODING_G_E_THOMAS ?t = Some ([OUTTGL], ?s\<lparr>bit_index := 5\<rparr>)"
    by (simp add: TCB0_INT_vect_def next_bit_of_def thomas_packet_start_def)
  have y: "consistent ?s"
    by (simp add: consistent_def index_in_packet_def thomas_packet_start_def
        TRANSMIT_BUFFER_SIZE_def)
  have w: "waveform ENCODING_G_E_THOMAS 100 ?s False = Some ?w"
    by code_simp
  have k: "2 * 14 + 1 < length ?w"
    by simp
  have z: "clk ?s \<noteq> 0 \<and> TCB_ENABLE ?s \<and> transmit_buffer_index ?s = 0 \<and> bit_index ?s = 6 \<and>
      0 < unat (transmit_buffer_length ?s) \<and>
      unat (transmit_buffer_length ?s) \<le> length (transmit_buffer ?s) \<and>
      (prev ?s = 0 \<or> prev ?s = 1) \<and> False = (prev ?s = 1) \<and>
      16 * unat (transmit_buffer_length ?s) - 2 \<le> 30"
    by (simp add: thomas_packet_start_def)
  have bits: "\<not> bit (0xA5 :: uint8_t) 6" "bit (0xA5 :: uint8_t) 0"
    by code_simp+
  have lv: "False # (\<not> False) #
      thomas_levels
        (take (8 * unat (transmit_buffer_length ?s) - 2)
           (drop 1 (packet_bits
              (take (unat (transmit_buffer_length ?s)) (transmit_buffer ?s))))) @
      [rest_level ENCODING_G_E_THOMAS] = ?w"
    by (simp add: thomas_packet_start_def packet_bits_def bits_msb_first_def rest_level_def)
  from encoder_step_edges [of ?s ENCODING_G_E_THOMAS ?t ?u ?v ?t "[OUTTGL]"
      "?s\<lparr>bit_index := 5\<rparr>" ?s 100 False ?w 14 ?s False 30]
    s t u v x y w k z bits lv
  show ?thesis
    by (simp add: thomas_packet_start_def rest_write_def)
qed

section \<open>Reading the waveform back\<close>

text \<open>
  The first packet after reset, for a payload of 1 to 254 bytes, in either build and read
  with either rule. The bytes on the line are the payload followed by the zero byte that
  lies behind it in the buffer. Read with the G. E. Thomas rule, the first bit is 0 in the
  G. E. Thomas build and 1 in the IEEE build, whatever the top bit of the payload is; the
  bits that follow are the queued ones, up to the last but one. Read with the IEEE rule
  every bit is inverted.
\<close>

lemma first_packet_read_back:
  assumes "0 < unat n" and "unat n < TRANSMIT_BUFFER_SIZE" and "unat n \<le> length d"
    and "16 * (unat n + 1) - 2 \<le> fuel"
  shows "\<exists>w. first_packet_waveform conv (rest_level conv) d n fuel = Some w \<and>
           length w = 16 * (unat n + 1) - 1 \<and>
           decode_wave rule w =
             map (\<lambda>b. Some (case rule of ENCODING_G_E_THOMAS \<Rightarrow> b | ENCODING_IEEE \<Rightarrow> \<not> b))
               ((conv = ENCODING_IEEE) #
                take (8 * (unat n + 1) - 2) (drop 1 (packet_bits (take (unat n) d @ [0]))))"
proof -
  let ?s0 = "fst (main_init conv (rest_level conv))"
  let ?p = "snd (main_init conv (rest_level conv))"
  let ?buf = "take (unat n) d @ drop (unat n) (transmit_buffer ?s0)"
  let ?s1 = "?s0\<lparr>transmit_buffer := ?buf, transmit_buffer_length := n + 1,
                  sending_in_progress := 1\<rparr>"
  have len0: "length (transmit_buffer ?s0) = 255"
    by (simp add: main_init_def TCB0_init_def reset_state_def TRANSMIT_BUFFER_SIZE_def)
  have idle: "sending_in_progress ?s0 = 0"
    by (simp add: main_init_def TCB0_init_def reset_state_def)
  from assms(2) len0 have fits: "unat n \<le> length (transmit_buffer ?s0)"
    by (simp add: TRANSMIT_BUFFER_SIZE_def)
  have snd: "send_encoded_data ?s0 d n = Some (?s1, 1)"
    using send_payload_at_index_0 [OF idle assms(3) fits] .
  have L: "unat (transmit_buffer_length ?s1) = unat n + 1"
    using assms(2) by (simp add: unat_word_ariths TRANSMIT_BUFFER_SIZE_def)
  have p: "?p = (conv = ENCODING_IEEE)" and pr: "prev ?s1 = (if conv = ENCODING_IEEE then 1 else 0)"
    by (cases conv; simp add: main_init_def TCB0_init_def reset_state_def rest_level_def
        prev_seed_def)+
  have h1: "clk ?s1 \<noteq> 0" and h2: "TCB_ENABLE ?s1"
    and h3: "transmit_buffer_index ?s1 = 0" and h4: "bit_index ?s1 = 6"
    by (simp_all add: main_init_def TCB0_init_def reset_state_def)
  have h5: "0 < unat (transmit_buffer_length ?s1)"
    using L by simp
  have h6: "unat (transmit_buffer_length ?s1) \<le> length (transmit_buffer ?s1)"
    using L assms(2,3) len0 by (simp add: TRANSMIT_BUFFER_SIZE_def)
  have h7: "prev ?s1 = 0 \<or> prev ?s1 = 1"
    using pr by simp
  have h8: "?p = (prev ?s1 = 1)"
    using p pr by simp
  have h9: "16 * unat (transmit_buffer_length ?s1) - 2 \<le> fuel"
    using L assms(4) by simp
  have "drop (unat n) (transmit_buffer ?s0) ! 0 = 0"
    using assms(1,2) 
    by (simp add: main_init_def TCB0_init_def reset_state_def TRANSMIT_BUFFER_SIZE_def
        nth_Cons split: nat.splits)
  moreover have "drop (unat n) (transmit_buffer ?s0) \<noteq> []"
    using assms(2) len0 by (simp add: TRANSMIT_BUFFER_SIZE_def)
  ultimately have "take 1 (drop (unat n) (transmit_buffer ?s0)) = [0]"
    by (cases "drop (unat n) (transmit_buffer ?s0)") simp_all
  then have "take (unat n + 1) ?buf = take (unat n) d @ [0]"
    using assms(3) by simp
  then have q: "queued_bits ?s1 = packet_bits (take (unat n) d @ [0])"
    using L by (simp add: queued_bits_def)
  from packet_read_back [OF h1 h2 h3 h4 h5 h6 h7 h8 h9, of conv rule]
  obtain w where w: "waveform conv fuel ?s1 ?p = Some w"
    and "length w = 16 * unat (transmit_buffer_length ?s1) - 1"
    and "decode_wave rule w =
           map (\<lambda>b. Some (case rule of ENCODING_G_E_THOMAS \<Rightarrow> b | ENCODING_IEEE \<Rightarrow> \<not> b))
             ((prev ?s1 = 1) #
              take (8 * unat (transmit_buffer_length ?s1) - 2) (drop 1 (queued_bits ?s1)))"
    by blast
  moreover have "first_packet_waveform conv (rest_level conv) d n fuel = waveform conv fuel ?s1 ?p"
    using snd
    by (simp add: first_packet_waveform_def first_packet_def waveform_def split_beta
        option.map_comp comp_def split: prod.splits)
  moreover have "(prev ?s0 = 1) = (conv = ENCODING_IEEE)"
    using pr by simp
  ultimately show ?thesis
    using L q by (intro exI [of _ w]) (cases rule; simp)
qed

text \<open>
  C1. The claim reads: for either convention and any payload of 1 to 254 bytes, the pin
  levels of the packet, read bit period by bit period with the rule of the convention,
  give back the bytes that were sent, most significant bit first. In the G. E. Thomas
  build, the first packet after reset with the one-byte payload \<open>0x80\<close> runs for 30
  interrupts and then stops by itself. Its 31 levels make 15 bit periods and one half
  period, and every bit period reads as 0: the result is neither the payload nor the
  start byte followed by the payload.
\<close>

theorem thomas_packet_0x80_misread:
  "first_packet_waveform ENCODING_G_E_THOMAS False [0x80] 1 100 =
     Some [False, True, False, True, False, True, False, True, False, True, False,
        True, False, True, False, True, False, True, False, True, False, True,
        False, True, False, True, False, True, False, True, False] \<and>
   decode_wave ENCODING_G_E_THOMAS
       [False, True, False, True, False, True, False, True, False, True, False,
        True, False, True, False, True, False, True, False, True, False, True,
        False, True, False, True, False, True, False, True, False] =
     [Some False, Some False, Some False, Some False, Some False, Some False, Some False,
      Some False, Some False, Some False, Some False, Some False, Some False, Some False,
      Some False] \<and>
   packet_bits [0x80] = [True, False, False, False, False, False, False, False] \<and>
   packet_bits [START_BYTE, 0x80] =
     [False, True, False, True, False, True, False, True,
      True, False, False, False, False, False, False, False]"
proof (intro conjI)
  show "first_packet_waveform ENCODING_G_E_THOMAS False [0x80] 1 100 =
     Some [False, True, False, True, False, True, False, True, False, True, False,
        True, False, True, False, True, False, True, False, True, False, True,
        False, True, False, True, False, True, False, True, False]"
    by code_simp
next
  show "decode_wave ENCODING_G_E_THOMAS
       [False, True, False, True, False, True, False, True, False, True, False,
        True, False, True, False, True, False, True, False, True, False, True,
        False, True, False, True, False, True, False, True, False] =
     [Some False, Some False, Some False, Some False, Some False, Some False, Some False,
      Some False, Some False, Some False, Some False, Some False, Some False, Some False,
      Some False]"
    by (simp add: decode_period_def)
next
  show "packet_bits [0x80] = [True, False, False, False, False, False, False, False]"
    by (simp add: packet_bits_def bits_msb_first_def)
next
  show "packet_bits [START_BYTE, 0x80] =
     [False, True, False, True, False, True, False, True,
      True, False, False, False, False, False, False, False]"
    by (simp add: packet_bits_def bits_msb_first_def START_BYTE_def)
qed

text \<open>
  The IEEE build, first packet after reset with the payload \<open>0x55\<close>: the pin starts high
  with \<^verbatim>\<open>prev = 1\<close>, and the levels that follow the first bit period are those of the
  G. E. Thomas rule.
\<close>

lemma ieee_packet_0x55_waveform:
  "first_packet_waveform ENCODING_IEEE False [0x55] 1 100 =
     Some [True, False, True, False, False, True, True, False, False, True, True,
           False, False, True, True, False, False, True, False, True, False, True,
           False, True, False, True, False, True, False, True, True]"
  by code_simp

lemma ieee_packet_0x55_misread:
  "decode_wave ENCODING_IEEE
       [True, False, True, False, False, True, True, False, False, True, True,
        False, False, True, True, False, False, True, False, True, False, True,
        False, True, False, True, False, True, False, True, True] =
     [Some False, Some False, Some True, Some False, Some True, Some False, Some True,
      Some False, Some True, Some True, Some True, Some True, Some True, Some True,
      Some True]"
  "packet_bits [0x55, 0x00] =
     [False, True, False, True, False, True, False, True,
      False, False, False, False, False, False, False, False]"
  by (simp_all add: decode_period_def packet_bits_def bits_msb_first_def)

end
